theory Spec2Isabelle
  imports Main "HOL-Library.Char_ord"
begin

section \<open>Token types\<close>

text \<open>
  \<^verbatim>\<open>yp_token_type_t\<close> is a C enumeration of 137 members starting at
  \<^verbatim>\<open>YP_TOKEN_EOF = 0\<close>. A token type is modelled as the integer value the C
  compiler gives the member, in declaration order. The three members whose C names
  contain doubled underscores (\<^verbatim>\<open>YP_TOKEN_KEYWORD___ENCODING__\<close>,
  \<^verbatim>\<open>___LINE__\<close>, \<^verbatim>\<open>___FILE__\<close>) are written without them.
\<close>

type_synonym yp_token_type_t = nat

abbreviation (input) YP_TOKEN_EOF :: yp_token_type_t where "YP_TOKEN_EOF \<equiv> 0"
abbreviation (input) YP_TOKEN_INVALID :: yp_token_type_t where "YP_TOKEN_INVALID \<equiv> 1"
abbreviation (input) YP_TOKEN_AMPERSAND :: yp_token_type_t where "YP_TOKEN_AMPERSAND \<equiv> 2"
abbreviation (input) YP_TOKEN_AMPERSAND_AMPERSAND :: yp_token_type_t where "YP_TOKEN_AMPERSAND_AMPERSAND \<equiv> 3"
abbreviation (input) YP_TOKEN_AMPERSAND_AMPERSAND_EQUAL :: yp_token_type_t where "YP_TOKEN_AMPERSAND_AMPERSAND_EQUAL \<equiv> 4"
abbreviation (input) YP_TOKEN_AMPERSAND_EQUAL :: yp_token_type_t where "YP_TOKEN_AMPERSAND_EQUAL \<equiv> 5"
abbreviation (input) YP_TOKEN_BACK_REFERENCE :: yp_token_type_t where "YP_TOKEN_BACK_REFERENCE \<equiv> 6"
abbreviation (input) YP_TOKEN_BACKTICK :: yp_token_type_t where "YP_TOKEN_BACKTICK \<equiv> 7"
abbreviation (input) YP_TOKEN_BANG :: yp_token_type_t where "YP_TOKEN_BANG \<equiv> 8"
abbreviation (input) YP_TOKEN_BANG_AT :: yp_token_type_t where "YP_TOKEN_BANG_AT \<equiv> 9"
abbreviation (input) YP_TOKEN_BANG_EQUAL :: yp_token_type_t where "YP_TOKEN_BANG_EQUAL \<equiv> 10"
abbreviation (input) YP_TOKEN_BANG_TILDE :: yp_token_type_t where "YP_TOKEN_BANG_TILDE \<equiv> 11"
abbreviation (input) YP_TOKEN_BRACE_LEFT :: yp_token_type_t where "YP_TOKEN_BRACE_LEFT \<equiv> 12"
abbreviation (input) YP_TOKEN_BRACE_RIGHT :: yp_token_type_t where "YP_TOKEN_BRACE_RIGHT \<equiv> 13"
abbreviation (input) YP_TOKEN_BRACKET_LEFT :: yp_token_type_t where "YP_TOKEN_BRACKET_LEFT \<equiv> 14"
abbreviation (input) YP_TOKEN_BRACKET_LEFT_RIGHT :: yp_token_type_t where "YP_TOKEN_BRACKET_LEFT_RIGHT \<equiv> 15"
abbreviation (input) YP_TOKEN_BRACKET_RIGHT :: yp_token_type_t where "YP_TOKEN_BRACKET_RIGHT \<equiv> 16"
abbreviation (input) YP_TOKEN_CARET :: yp_token_type_t where "YP_TOKEN_CARET \<equiv> 17"
abbreviation (input) YP_TOKEN_CARET_EQUAL :: yp_token_type_t where "YP_TOKEN_CARET_EQUAL \<equiv> 18"
abbreviation (input) YP_TOKEN_CHARACTER_LITERAL :: yp_token_type_t where "YP_TOKEN_CHARACTER_LITERAL \<equiv> 19"
abbreviation (input) YP_TOKEN_CLASS_VARIABLE :: yp_token_type_t where "YP_TOKEN_CLASS_VARIABLE \<equiv> 20"
abbreviation (input) YP_TOKEN_COLON :: yp_token_type_t where "YP_TOKEN_COLON \<equiv> 21"
abbreviation (input) YP_TOKEN_COLON_COLON :: yp_token_type_t where "YP_TOKEN_COLON_COLON \<equiv> 22"
abbreviation (input) YP_TOKEN_COMMA :: yp_token_type_t where "YP_TOKEN_COMMA \<equiv> 23"
abbreviation (input) YP_TOKEN_COMMENT :: yp_token_type_t where "YP_TOKEN_COMMENT \<equiv> 24"
abbreviation (input) YP_TOKEN_CONSTANT :: yp_token_type_t where "YP_TOKEN_CONSTANT \<equiv> 25"
abbreviation (input) YP_TOKEN_DOT :: yp_token_type_t where "YP_TOKEN_DOT \<equiv> 26"
abbreviation (input) YP_TOKEN_DOT_DOT :: yp_token_type_t where "YP_TOKEN_DOT_DOT \<equiv> 27"
abbreviation (input) YP_TOKEN_DOT_DOT_DOT :: yp_token_type_t where "YP_TOKEN_DOT_DOT_DOT \<equiv> 28"
abbreviation (input) YP_TOKEN_EMBDOC_BEGIN :: yp_token_type_t where "YP_TOKEN_EMBDOC_BEGIN \<equiv> 29"
abbreviation (input) YP_TOKEN_EMBDOC_END :: yp_token_type_t where "YP_TOKEN_EMBDOC_END \<equiv> 30"
abbreviation (input) YP_TOKEN_EMBDOC_LINE :: yp_token_type_t where "YP_TOKEN_EMBDOC_LINE \<equiv> 31"
abbreviation (input) YP_TOKEN_EMBEXPR_BEGIN :: yp_token_type_t where "YP_TOKEN_EMBEXPR_BEGIN \<equiv> 32"
abbreviation (input) YP_TOKEN_EMBEXPR_END :: yp_token_type_t where "YP_TOKEN_EMBEXPR_END \<equiv> 33"
abbreviation (input) YP_TOKEN_EQUAL :: yp_token_type_t where "YP_TOKEN_EQUAL \<equiv> 34"
abbreviation (input) YP_TOKEN_EQUAL_EQUAL :: yp_token_type_t where "YP_TOKEN_EQUAL_EQUAL \<equiv> 35"
abbreviation (input) YP_TOKEN_EQUAL_EQUAL_EQUAL :: yp_token_type_t where "YP_TOKEN_EQUAL_EQUAL_EQUAL \<equiv> 36"
abbreviation (input) YP_TOKEN_EQUAL_GREATER :: yp_token_type_t where "YP_TOKEN_EQUAL_GREATER \<equiv> 37"
abbreviation (input) YP_TOKEN_EQUAL_TILDE :: yp_token_type_t where "YP_TOKEN_EQUAL_TILDE \<equiv> 38"
abbreviation (input) YP_TOKEN_FLOAT :: yp_token_type_t where "YP_TOKEN_FLOAT \<equiv> 39"
abbreviation (input) YP_TOKEN_GREATER :: yp_token_type_t where "YP_TOKEN_GREATER \<equiv> 40"
abbreviation (input) YP_TOKEN_GREATER_EQUAL :: yp_token_type_t where "YP_TOKEN_GREATER_EQUAL \<equiv> 41"
abbreviation (input) YP_TOKEN_GREATER_GREATER :: yp_token_type_t where "YP_TOKEN_GREATER_GREATER \<equiv> 42"
abbreviation (input) YP_TOKEN_GREATER_GREATER_EQUAL :: yp_token_type_t where "YP_TOKEN_GREATER_GREATER_EQUAL \<equiv> 43"
abbreviation (input) YP_TOKEN_GLOBAL_VARIABLE :: yp_token_type_t where "YP_TOKEN_GLOBAL_VARIABLE \<equiv> 44"
abbreviation (input) YP_TOKEN_IDENTIFIER :: yp_token_type_t where "YP_TOKEN_IDENTIFIER \<equiv> 45"
abbreviation (input) YP_TOKEN_IMAGINARY_NUMBER :: yp_token_type_t where "YP_TOKEN_IMAGINARY_NUMBER \<equiv> 46"
abbreviation (input) YP_TOKEN_INSTANCE_VARIABLE :: yp_token_type_t where "YP_TOKEN_INSTANCE_VARIABLE \<equiv> 47"
abbreviation (input) YP_TOKEN_INTEGER :: yp_token_type_t where "YP_TOKEN_INTEGER \<equiv> 48"
abbreviation (input) YP_TOKEN_KEYWORD_ENCODING :: yp_token_type_t where "YP_TOKEN_KEYWORD_ENCODING \<equiv> 49"
abbreviation (input) YP_TOKEN_KEYWORD_LINE :: yp_token_type_t where "YP_TOKEN_KEYWORD_LINE \<equiv> 50"
abbreviation (input) YP_TOKEN_KEYWORD_FILE :: yp_token_type_t where "YP_TOKEN_KEYWORD_FILE \<equiv> 51"
abbreviation (input) YP_TOKEN_KEYWORD_ALIAS :: yp_token_type_t where "YP_TOKEN_KEYWORD_ALIAS \<equiv> 52"
abbreviation (input) YP_TOKEN_KEYWORD_AND :: yp_token_type_t where "YP_TOKEN_KEYWORD_AND \<equiv> 53"
abbreviation (input) YP_TOKEN_KEYWORD_BEGIN :: yp_token_type_t where "YP_TOKEN_KEYWORD_BEGIN \<equiv> 54"
abbreviation (input) YP_TOKEN_KEYWORD_BEGIN_UPCASE :: yp_token_type_t where "YP_TOKEN_KEYWORD_BEGIN_UPCASE \<equiv> 55"
abbreviation (input) YP_TOKEN_KEYWORD_BREAK :: yp_token_type_t where "YP_TOKEN_KEYWORD_BREAK \<equiv> 56"
abbreviation (input) YP_TOKEN_KEYWORD_CASE :: yp_token_type_t where "YP_TOKEN_KEYWORD_CASE \<equiv> 57"
abbreviation (input) YP_TOKEN_KEYWORD_CLASS :: yp_token_type_t where "YP_TOKEN_KEYWORD_CLASS \<equiv> 58"
abbreviation (input) YP_TOKEN_KEYWORD_DEF :: yp_token_type_t where "YP_TOKEN_KEYWORD_DEF \<equiv> 59"
abbreviation (input) YP_TOKEN_KEYWORD_DEFINED :: yp_token_type_t where "YP_TOKEN_KEYWORD_DEFINED \<equiv> 60"
abbreviation (input) YP_TOKEN_KEYWORD_DO :: yp_token_type_t where "YP_TOKEN_KEYWORD_DO \<equiv> 61"
abbreviation (input) YP_TOKEN_KEYWORD_ELSE :: yp_token_type_t where "YP_TOKEN_KEYWORD_ELSE \<equiv> 62"
abbreviation (input) YP_TOKEN_KEYWORD_ELSIF :: yp_token_type_t where "YP_TOKEN_KEYWORD_ELSIF \<equiv> 63"
abbreviation (input) YP_TOKEN_KEYWORD_END :: yp_token_type_t where "YP_TOKEN_KEYWORD_END \<equiv> 64"
abbreviation (input) YP_TOKEN_KEYWORD_END_UPCASE :: yp_token_type_t where "YP_TOKEN_KEYWORD_END_UPCASE \<equiv> 65"
abbreviation (input) YP_TOKEN_KEYWORD_ENSURE :: yp_token_type_t where "YP_TOKEN_KEYWORD_ENSURE \<equiv> 66"
abbreviation (input) YP_TOKEN_KEYWORD_FALSE :: yp_token_type_t where "YP_TOKEN_KEYWORD_FALSE \<equiv> 67"
abbreviation (input) YP_TOKEN_KEYWORD_FOR :: yp_token_type_t where "YP_TOKEN_KEYWORD_FOR \<equiv> 68"
abbreviation (input) YP_TOKEN_KEYWORD_IF :: yp_token_type_t where "YP_TOKEN_KEYWORD_IF \<equiv> 69"
abbreviation (input) YP_TOKEN_KEYWORD_IN :: yp_token_type_t where "YP_TOKEN_KEYWORD_IN \<equiv> 70"
abbreviation (input) YP_TOKEN_KEYWORD_MODULE :: yp_token_type_t where "YP_TOKEN_KEYWORD_MODULE \<equiv> 71"
abbreviation (input) YP_TOKEN_KEYWORD_NEXT :: yp_token_type_t where "YP_TOKEN_KEYWORD_NEXT \<equiv> 72"
abbreviation (input) YP_TOKEN_KEYWORD_NIL :: yp_token_type_t where "YP_TOKEN_KEYWORD_NIL \<equiv> 73"
abbreviation (input) YP_TOKEN_KEYWORD_NOT :: yp_token_type_t where "YP_TOKEN_KEYWORD_NOT \<equiv> 74"
abbreviation (input) YP_TOKEN_KEYWORD_OR :: yp_token_type_t where "YP_TOKEN_KEYWORD_OR \<equiv> 75"
abbreviation (input) YP_TOKEN_KEYWORD_REDO :: yp_token_type_t where "YP_TOKEN_KEYWORD_REDO \<equiv> 76"
abbreviation (input) YP_TOKEN_KEYWORD_RESCUE :: yp_token_type_t where "YP_TOKEN_KEYWORD_RESCUE \<equiv> 77"
abbreviation (input) YP_TOKEN_KEYWORD_RETRY :: yp_token_type_t where "YP_TOKEN_KEYWORD_RETRY \<equiv> 78"
abbreviation (input) YP_TOKEN_KEYWORD_RETURN :: yp_token_type_t where "YP_TOKEN_KEYWORD_RETURN \<equiv> 79"
abbreviation (input) YP_TOKEN_KEYWORD_SELF :: yp_token_type_t where "YP_TOKEN_KEYWORD_SELF \<equiv> 80"
abbreviation (input) YP_TOKEN_KEYWORD_SUPER :: yp_token_type_t where "YP_TOKEN_KEYWORD_SUPER \<equiv> 81"
abbreviation (input) YP_TOKEN_KEYWORD_THEN :: yp_token_type_t where "YP_TOKEN_KEYWORD_THEN \<equiv> 82"
abbreviation (input) YP_TOKEN_KEYWORD_TRUE :: yp_token_type_t where "YP_TOKEN_KEYWORD_TRUE \<equiv> 83"
abbreviation (input) YP_TOKEN_KEYWORD_UNDEF :: yp_token_type_t where "YP_TOKEN_KEYWORD_UNDEF \<equiv> 84"
abbreviation (input) YP_TOKEN_KEYWORD_UNLESS :: yp_token_type_t where "YP_TOKEN_KEYWORD_UNLESS \<equiv> 85"
abbreviation (input) YP_TOKEN_KEYWORD_UNTIL :: yp_token_type_t where "YP_TOKEN_KEYWORD_UNTIL \<equiv> 86"
abbreviation (input) YP_TOKEN_KEYWORD_WHEN :: yp_token_type_t where "YP_TOKEN_KEYWORD_WHEN \<equiv> 87"
abbreviation (input) YP_TOKEN_KEYWORD_WHILE :: yp_token_type_t where "YP_TOKEN_KEYWORD_WHILE \<equiv> 88"
abbreviation (input) YP_TOKEN_KEYWORD_YIELD :: yp_token_type_t where "YP_TOKEN_KEYWORD_YIELD \<equiv> 89"
abbreviation (input) YP_TOKEN_LABEL :: yp_token_type_t where "YP_TOKEN_LABEL \<equiv> 90"
abbreviation (input) YP_TOKEN_LAMBDA_BEGIN :: yp_token_type_t where "YP_TOKEN_LAMBDA_BEGIN \<equiv> 91"
abbreviation (input) YP_TOKEN_LESS :: yp_token_type_t where "YP_TOKEN_LESS \<equiv> 92"
abbreviation (input) YP_TOKEN_LESS_EQUAL :: yp_token_type_t where "YP_TOKEN_LESS_EQUAL \<equiv> 93"
abbreviation (input) YP_TOKEN_LESS_EQUAL_GREATER :: yp_token_type_t where "YP_TOKEN_LESS_EQUAL_GREATER \<equiv> 94"
abbreviation (input) YP_TOKEN_LESS_LESS :: yp_token_type_t where "YP_TOKEN_LESS_LESS \<equiv> 95"
abbreviation (input) YP_TOKEN_LESS_LESS_EQUAL :: yp_token_type_t where "YP_TOKEN_LESS_LESS_EQUAL \<equiv> 96"
abbreviation (input) YP_TOKEN_MINUS :: yp_token_type_t where "YP_TOKEN_MINUS \<equiv> 97"
abbreviation (input) YP_TOKEN_MINUS_AT :: yp_token_type_t where "YP_TOKEN_MINUS_AT \<equiv> 98"
abbreviation (input) YP_TOKEN_MINUS_EQUAL :: yp_token_type_t where "YP_TOKEN_MINUS_EQUAL \<equiv> 99"
abbreviation (input) YP_TOKEN_MINUS_GREATER :: yp_token_type_t where "YP_TOKEN_MINUS_GREATER \<equiv> 100"
abbreviation (input) YP_TOKEN_NEWLINE :: yp_token_type_t where "YP_TOKEN_NEWLINE \<equiv> 101"
abbreviation (input) YP_TOKEN_NTH_REFERENCE :: yp_token_type_t where "YP_TOKEN_NTH_REFERENCE \<equiv> 102"
abbreviation (input) YP_TOKEN_PARENTHESIS_LEFT :: yp_token_type_t where "YP_TOKEN_PARENTHESIS_LEFT \<equiv> 103"
abbreviation (input) YP_TOKEN_PARENTHESIS_RIGHT :: yp_token_type_t where "YP_TOKEN_PARENTHESIS_RIGHT \<equiv> 104"
abbreviation (input) YP_TOKEN_PERCENT :: yp_token_type_t where "YP_TOKEN_PERCENT \<equiv> 105"
abbreviation (input) YP_TOKEN_PERCENT_EQUAL :: yp_token_type_t where "YP_TOKEN_PERCENT_EQUAL \<equiv> 106"
abbreviation (input) YP_TOKEN_PERCENT_LOWER_I :: yp_token_type_t where "YP_TOKEN_PERCENT_LOWER_I \<equiv> 107"
abbreviation (input) YP_TOKEN_PERCENT_LOWER_W :: yp_token_type_t where "YP_TOKEN_PERCENT_LOWER_W \<equiv> 108"
abbreviation (input) YP_TOKEN_PERCENT_LOWER_X :: yp_token_type_t where "YP_TOKEN_PERCENT_LOWER_X \<equiv> 109"
abbreviation (input) YP_TOKEN_PERCENT_UPPER_I :: yp_token_type_t where "YP_TOKEN_PERCENT_UPPER_I \<equiv> 110"
abbreviation (input) YP_TOKEN_PERCENT_UPPER_W :: yp_token_type_t where "YP_TOKEN_PERCENT_UPPER_W \<equiv> 111"
abbreviation (input) YP_TOKEN_PIPE :: yp_token_type_t where "YP_TOKEN_PIPE \<equiv> 112"
abbreviation (input) YP_TOKEN_PIPE_EQUAL :: yp_token_type_t where "YP_TOKEN_PIPE_EQUAL \<equiv> 113"
abbreviation (input) YP_TOKEN_PIPE_PIPE :: yp_token_type_t where "YP_TOKEN_PIPE_PIPE \<equiv> 114"
abbreviation (input) YP_TOKEN_PIPE_PIPE_EQUAL :: yp_token_type_t where "YP_TOKEN_PIPE_PIPE_EQUAL \<equiv> 115"
abbreviation (input) YP_TOKEN_PLUS :: yp_token_type_t where "YP_TOKEN_PLUS \<equiv> 116"
abbreviation (input) YP_TOKEN_PLUS_AT :: yp_token_type_t where "YP_TOKEN_PLUS_AT \<equiv> 117"
abbreviation (input) YP_TOKEN_PLUS_EQUAL :: yp_token_type_t where "YP_TOKEN_PLUS_EQUAL \<equiv> 118"
abbreviation (input) YP_TOKEN_QUESTION_MARK :: yp_token_type_t where "YP_TOKEN_QUESTION_MARK \<equiv> 119"
abbreviation (input) YP_TOKEN_RATIONAL_NUMBER :: yp_token_type_t where "YP_TOKEN_RATIONAL_NUMBER \<equiv> 120"
abbreviation (input) YP_TOKEN_REGEXP_BEGIN :: yp_token_type_t where "YP_TOKEN_REGEXP_BEGIN \<equiv> 121"
abbreviation (input) YP_TOKEN_REGEXP_END :: yp_token_type_t where "YP_TOKEN_REGEXP_END \<equiv> 122"
abbreviation (input) YP_TOKEN_SEMICOLON :: yp_token_type_t where "YP_TOKEN_SEMICOLON \<equiv> 123"
abbreviation (input) YP_TOKEN_SLASH :: yp_token_type_t where "YP_TOKEN_SLASH \<equiv> 124"
abbreviation (input) YP_TOKEN_SLASH_EQUAL :: yp_token_type_t where "YP_TOKEN_SLASH_EQUAL \<equiv> 125"
abbreviation (input) YP_TOKEN_STAR :: yp_token_type_t where "YP_TOKEN_STAR \<equiv> 126"
abbreviation (input) YP_TOKEN_STAR_EQUAL :: yp_token_type_t where "YP_TOKEN_STAR_EQUAL \<equiv> 127"
abbreviation (input) YP_TOKEN_STAR_STAR :: yp_token_type_t where "YP_TOKEN_STAR_STAR \<equiv> 128"
abbreviation (input) YP_TOKEN_STAR_STAR_EQUAL :: yp_token_type_t where "YP_TOKEN_STAR_STAR_EQUAL \<equiv> 129"
abbreviation (input) YP_TOKEN_STRING_BEGIN :: yp_token_type_t where "YP_TOKEN_STRING_BEGIN \<equiv> 130"
abbreviation (input) YP_TOKEN_STRING_CONTENT :: yp_token_type_t where "YP_TOKEN_STRING_CONTENT \<equiv> 131"
abbreviation (input) YP_TOKEN_STRING_END :: yp_token_type_t where "YP_TOKEN_STRING_END \<equiv> 132"
abbreviation (input) YP_TOKEN_SYMBOL_BEGIN :: yp_token_type_t where "YP_TOKEN_SYMBOL_BEGIN \<equiv> 133"
abbreviation (input) YP_TOKEN_TILDE :: yp_token_type_t where "YP_TOKEN_TILDE \<equiv> 134"
abbreviation (input) YP_TOKEN_TILDE_AT :: yp_token_type_t where "YP_TOKEN_TILDE_AT \<equiv> 135"
abbreviation (input) YP_TOKEN_WORDS_SEP :: yp_token_type_t where "YP_TOKEN_WORDS_SEP \<equiv> 136"

section \<open>Data model\<close>

text \<open>
  A token: its type and two byte offsets into the source buffer (the C struct holds two
  pointers into the buffer; \<^verbatim>\<open>token_inspect\<close> reports them as offsets
  from \<^verbatim>\<open>parser->start\<close>). The members \<^verbatim>\<open>type\<close>,
  \<^verbatim>\<open>start\<close> and \<^verbatim>\<open>end\<close> are the fields \<open>tok_type\<close>,
  \<open>tok_start\<close> and \<open>tok_end\<close>.
\<close>

record yp_token_t =
  tok_type :: yp_token_type_t
  tok_start :: nat
  tok_end :: nat

text \<open>
  The mode tag of a lex mode. The first seven constructors are the members of the C
  enumeration. \<open>YP_LEX_OUT_OF_RANGE\<close> stands for any other integer found in the
  \<^verbatim>\<open>mode\<close> field of a block that was never written: the
  \<^verbatim>\<open>switch\<close> of \<^verbatim>\<open>lex_token_type\<close> then matches no case.
\<close>

datatype yp_lex_tag =
    YP_LEX_DEFAULT
  | YP_LEX_EMBDOC
  | YP_LEX_EMBEXPR
  | YP_LEX_LIST
  | YP_LEX_REGEXP
  | YP_LEX_STRING
  | YP_LEX_SYMBOL
  | YP_LEX_OUT_OF_RANGE

text \<open>
  A pointer to a lex mode: the null pointer, the address of slot \<open>k\<close> of the inline
  array \<^verbatim>\<open>parser->lex_modes.stack\<close>, or the address of a block obtained
  from \<^verbatim>\<open>malloc\<close>.
\<close>

datatype mode_ref = Null | Inline nat | Node nat

text \<open>The members \<^verbatim>\<open>mode\<close>, \<^verbatim>\<open>term\<close>, \<^verbatim>\<open>interp\<close>
  and \<^verbatim>\<open>prev\<close> of \<^verbatim>\<open>yp_lex_mode_t\<close>.\<close>

record yp_lex_mode_t =
  lex_mode :: yp_lex_tag
  lex_term :: char
  lex_interp :: bool
  lex_prev :: mode_ref

definition YP_LEX_STACK_SIZE :: nat where
  "YP_LEX_STACK_SIZE = 4"

text \<open>
  The parser. \<open>source\<close> is the buffer between \<^verbatim>\<open>parser->start\<close> and
  \<^verbatim>\<open>parser->end\<close>; offsets are relative to its start, so
  \<^verbatim>\<open>parser->end\<close> is \<open>length (source p)\<close>. The three
  \<open>lex_modes_\<close> fields are the members of the anonymous struct
  \<^verbatim>\<open>lex_modes\<close>.

  The last five fields are the memory around the parser, which the C code reads:
  \<^item> \<open>mem_before\<close> is the byte at \<^verbatim>\<open>parser->start[-1]\<close>, read by the
    \<^verbatim>\<open>=begin\<close> test when \<^verbatim>\<open>=\<close> is the first byte of the buffer;
  \<^item> \<open>mem_after\<close> holds the bytes that follow the sentinel, from
    \<^verbatim>\<open>parser->end[1]\<close> on, as far as memory is mapped; the lexer reads them
    once the read position has passed the sentinel;
  \<^item> \<open>heap\<close> gives the content of every block \<^verbatim>\<open>malloc\<close> can return,
    \<open>heap_brk\<close> counts the blocks handed out so far (block \<open>heap_brk\<close> is the
    next one) and \<open>heap_live\<close> lists the blocks that have not been freed.
  The byte at \<^verbatim>\<open>parser->end\<close> is the NUL sentinel that the lexer relies on.
  \<^verbatim>\<open>malloc\<close> is taken to succeed and to return a block that is not in use.
  \<open>lineno\<close> is the C \<^verbatim>\<open>int\<close> as an unbounded integer: the model does
  not follow the counter past \<^verbatim>\<open>INT_MAX\<close>, where the C increment overflows.
  The error handler table is passed to the lexing functions as an argument.
\<close>

record yp_parser_t =
  lex_modes_current :: mode_ref
  lex_modes_stack :: "yp_lex_mode_t list"
  lex_modes_index :: nat
  source :: string
  previous :: yp_token_t
  current :: yp_token_t
  lineno :: int
  mem_before :: char
  mem_after :: string
  heap :: "nat \<Rightarrow> yp_lex_mode_t"
  heap_brk :: nat
  heap_live :: "nat list"

record yp_error_handler_t =
  unterminated_embdoc :: "yp_parser_t \<Rightarrow> yp_token_type_t \<times> yp_parser_t"
  unterminated_list :: "yp_parser_t \<Rightarrow> yp_token_type_t \<times> yp_parser_t"
  unterminated_regexp :: "yp_parser_t \<Rightarrow> yp_token_type_t \<times> yp_parser_t"
  unterminated_string :: "yp_parser_t \<Rightarrow> yp_token_type_t \<times> yp_parser_t"

section \<open>Basic character checks\<close>

definition is_binary_number_char :: "char \<Rightarrow> bool" where
  "is_binary_number_char c \<longleftrightarrow> c = CHR ''0'' \<or> c = CHR ''1''"

definition is_octal_number_char :: "char \<Rightarrow> bool" where
  "is_octal_number_char c \<longleftrightarrow> CHR ''0'' \<le> c \<and> c \<le> CHR ''7''"

definition is_decimal_number_char :: "char \<Rightarrow> bool" where
  "is_decimal_number_char c \<longleftrightarrow> CHR ''0'' \<le> c \<and> c \<le> CHR ''9''"

definition is_hexadecimal_number_char :: "char \<Rightarrow> bool" where
  "is_hexadecimal_number_char c \<longleftrightarrow>
     (CHR ''0'' \<le> c \<and> c \<le> CHR ''9'') \<or> (CHR ''a'' \<le> c \<and> c \<le> CHR ''f'')
     \<or> (CHR ''A'' \<le> c \<and> c \<le> CHR ''F'')"

definition is_identifier_start_char :: "char \<Rightarrow> bool" where
  "is_identifier_start_char c \<longleftrightarrow>
     (CHR ''a'' \<le> c \<and> c \<le> CHR ''z'') \<or> (CHR ''A'' \<le> c \<and> c \<le> CHR ''Z'')
     \<or> c = CHR ''_''"

definition is_identifier_char :: "char \<Rightarrow> bool" where
  "is_identifier_char c \<longleftrightarrow> is_identifier_start_char c \<or> is_decimal_number_char c"

definition is_non_newline_whitespace_char :: "char \<Rightarrow> bool" where
  "is_non_newline_whitespace_char c \<longleftrightarrow>
     c = CHR '' '' \<or> c = CHR 0x09 \<or> c = CHR 0x0C \<or> c = CHR 0x0D \<or> c = CHR 0x0B"

definition is_whitespace_char :: "char \<Rightarrow> bool" where
  "is_whitespace_char c \<longleftrightarrow> is_non_newline_whitespace_char c \<or> c = CHR 0x0A"

section \<open>Reading the buffer\<close>

definition NUL :: char where
  "NUL = CHR 0x00"

text \<open>
  The byte at an offset from \<^verbatim>\<open>parser->start\<close>: a byte of the buffer, the
  sentinel at offset \<open>length (source p)\<close>, or a byte of the memory after it. Where
  that memory ends the C program reads unmapped memory; the model reads NUL there, which
  ends every scanning loop.
\<close>

definition byte_at :: "yp_parser_t \<Rightarrow> nat \<Rightarrow> char" where
  "byte_at p i =
     (if i < length (source p) then source p ! i
      else if i = length (source p) then NUL
      else if i - length (source p) - 1 < length (mem_after p)
        then mem_after p ! (i - length (source p) - 1)
      else NUL)"

text \<open>The first offset at which no memory is mapped any more.\<close>

definition mapped_end :: "yp_parser_t \<Rightarrow> nat" where
  "mapped_end p = length (source p) + 1 + length (mem_after p)"

text \<open>\<^verbatim>\<open>parser->current.end\<close>, the read position.\<close>

definition cursor :: "yp_parser_t \<Rightarrow> nat" where
  "cursor p = tok_end (current p)"

text \<open>\<^verbatim>\<open>*parser->current.end\<close> and \<^verbatim>\<open>parser->current.end[k]\<close>.\<close>

definition peek :: "yp_parser_t \<Rightarrow> char" where
  "peek p = byte_at p (cursor p)"

definition peek_at :: "yp_parser_t \<Rightarrow> nat \<Rightarrow> char" where
  "peek_at p k = byte_at p (cursor p + k)"

text \<open>
  \<^verbatim>\<open>parser->current.end[-k]\<close>. The only read that can fall before the buffer
  is one byte before its start, which the model takes to be mapped and to hold
  \<open>mem_before\<close>.
\<close>

definition peek_back :: "yp_parser_t \<Rightarrow> nat \<Rightarrow> char" where
  "peek_back p k = (if k \<le> cursor p then byte_at p (cursor p - k) else mem_before p)"

text \<open>\<^verbatim>\<open>parser->current.end += n\<close>\<close>

definition advance :: "nat \<Rightarrow> yp_parser_t \<Rightarrow> yp_parser_t" where
  "advance n p = p\<lparr>current := (current p)\<lparr>tok_end := tok_end (current p) + n\<rparr>\<rparr>"

text \<open>\<^verbatim>\<open>parser->current.start = parser->current.end\<close>\<close>

definition start_token :: "yp_parser_t \<Rightarrow> yp_parser_t" where
  "start_token p = p\<lparr>current := (current p)\<lparr>tok_start := tok_end (current p)\<rparr>\<rparr>"

definition line_feed :: "yp_parser_t \<Rightarrow> yp_parser_t" where
  "line_feed p = p\<lparr>lineno := lineno p + 1\<rparr>"

section \<open>Lexer check helpers\<close>

definition match :: "yp_parser_t \<Rightarrow> char \<Rightarrow> bool \<times> yp_parser_t" where
  "match p v = (if peek p = v then (True, advance 1 p) else (False, p))"

definition terminator :: "char \<Rightarrow> char" where
  "terminator start =
     (if start = CHR ''('' then CHR '')''
      else if start = CHR ''['' then CHR '']''
      else if start = CHR ''{'' then CHR ''}''
      else if start = CHR ''<'' then CHR ''>''
      else start)"

text \<open>
  \<^verbatim>\<open>strncmp(s, value, n) == 0\<close> for a pointer \<open>s\<close> into the buffer at offset
  \<open>pos\<close> and a string literal \<open>v\<close> of at least \<open>n\<close> bytes, none of them
  NUL: the \<open>n\<close> bytes at \<open>pos\<close> are the first \<open>n\<close> bytes of \<open>v\<close>.
  \<^verbatim>\<open>strncmp\<close> stops reading at the first byte that differs, and the bytes
  after that one have no influence on the value of the comparison below either.
\<close>

definition strncmp_eq :: "yp_parser_t \<Rightarrow> nat \<Rightarrow> string \<Rightarrow> nat \<Rightarrow> bool" where
  "strncmp_eq p pos v n \<longleftrightarrow> map (byte_at p) [pos ..< pos + n] = take n v"

section \<open>Lex mode manipulations\<close>

text \<open>
  Reading through a lex mode pointer. A null pointer, a slot outside the inline array
  and a block that is not live cannot be read: the C program has no defined behaviour
  there, and the model returns \<open>None\<close>.
\<close>

definition deref :: "yp_parser_t \<Rightarrow> mode_ref \<Rightarrow> yp_lex_mode_t option" where
  "deref p r =
     (case r of
        Null \<Rightarrow> None
      | Inline k \<Rightarrow> if k < YP_LEX_STACK_SIZE then Some (lex_modes_stack p ! k) else None
      | Node a \<Rightarrow> if a \<in> set (heap_live p) then Some (heap p a) else None)"

text \<open>
  \<^verbatim>\<open>push_lex_mode\<close>. Past the inline array the C function points
  \<^verbatim>\<open>current\<close> at a fresh block and returns: it does not copy
  \<^verbatim>\<open>lex_mode\<close> into it, so the block keeps the content it had.
\<close>

definition push_lex_mode :: "yp_parser_t \<Rightarrow> yp_lex_mode_t \<Rightarrow> yp_parser_t" where
  "push_lex_mode p m =
     (let m' = m\<lparr>lex_prev := lex_modes_current p\<rparr>;
          i = lex_modes_index p + 1
      in if i > YP_LEX_STACK_SIZE - 1
         then p\<lparr>lex_modes_index := i,
                lex_modes_current := Node (heap_brk p),
                heap_live := heap_brk p # heap_live p,
                heap_brk := heap_brk p + 1\<rparr>
         else p\<lparr>lex_modes_index := i,
                lex_modes_stack := (lex_modes_stack p)[i := m'],
                lex_modes_current := Inline i\<rparr>)"

text \<open>
  \<^verbatim>\<open>pop_lex_mode\<close>. With index 0 it writes the mode tag through
  \<^verbatim>\<open>current\<close>; in the inline region it steps back one slot; past it, it
  reads \<^verbatim>\<open>current->prev\<close>, frees \<^verbatim>\<open>current\<close> and follows the
  pointer it read. \<open>None\<close> where the pointer cannot be read or freed.
\<close>

definition pop_lex_mode :: "yp_parser_t \<Rightarrow> yp_parser_t option" where
  "pop_lex_mode p =
     (if lex_modes_index p = 0 then
        (case lex_modes_current p of
           Null \<Rightarrow> None
         | Inline k \<Rightarrow>
             if k < YP_LEX_STACK_SIZE
             then Some (p\<lparr>lex_modes_stack :=
                    (lex_modes_stack p)[k := (lex_modes_stack p ! k)\<lparr>lex_mode := YP_LEX_DEFAULT\<rparr>]\<rparr>)
             else None
         | Node a \<Rightarrow>
             if a \<in> set (heap_live p)
             then Some (p\<lparr>heap := (heap p)(a := (heap p a)\<lparr>lex_mode := YP_LEX_DEFAULT\<rparr>)\<rparr>)
             else None)
      else if lex_modes_index p < YP_LEX_STACK_SIZE then
        Some (p\<lparr>lex_modes_index := lex_modes_index p - 1,
                lex_modes_current := Inline (lex_modes_index p - 1)\<rparr>)
      else
        (case deref p (lex_modes_current p) of
           None \<Rightarrow> None
         | Some m \<Rightarrow>
             (case lex_modes_current p of
                Node a \<Rightarrow>
                  Some (p\<lparr>lex_modes_index := lex_modes_index p - 1,
                          heap_live := removeAll a (heap_live p),
                          lex_modes_current := lex_prev m\<rparr>)
              | _ \<Rightarrow> None)))"

text \<open>A lex mode as the compound literals of the source build it; members that a
  literal does not name are zero.\<close>

definition mk_lex_mode :: "yp_lex_tag \<Rightarrow> char \<Rightarrow> bool \<Rightarrow> yp_lex_mode_t" where
  "mk_lex_mode t c i = \<lparr>lex_mode = t, lex_term = c, lex_interp = i, lex_prev = Null\<rparr>"


section \<open>Scanning loops\<close>

text \<open>
  The loops of the source that advance \<^verbatim>\<open>parser->current.end\<close> while the
  byte under it has some property. None of them compares the position with
  \<^verbatim>\<open>parser->end\<close>: each stops at a NUL byte, which is the sentinel for a loop
  that starts inside the buffer.
\<close>

text \<open>\<^verbatim>\<open>while (is_decimal_number_char(end)) { end++; match(parser, '_'); }\<close>\<close>

function decimal_run :: "yp_parser_t \<Rightarrow> yp_parser_t" where
  "decimal_run p =
     (if is_decimal_number_char (peek p)
      then decimal_run (snd (match (advance 1 p) CHR ''_''))
      else p)"
  by pat_completeness auto
termination
  by (relation "measure (\<lambda>p. mapped_end p - cursor p)")
     (auto simp: match_def advance_def cursor_def peek_def byte_at_def mapped_end_def NUL_def
        is_decimal_number_char_def split: if_splits)

declare decimal_run.simps [simp del]

function binary_run :: "yp_parser_t \<Rightarrow> yp_parser_t" where
  "binary_run p =
     (if is_binary_number_char (peek p)
      then binary_run (snd (match (advance 1 p) CHR ''_''))
      else p)"
  by pat_completeness auto
termination
  by (relation "measure (\<lambda>p. mapped_end p - cursor p)")
     (auto simp: match_def advance_def cursor_def peek_def byte_at_def mapped_end_def NUL_def
        is_binary_number_char_def split: if_splits)

declare binary_run.simps [simp del]

function octal_run :: "yp_parser_t \<Rightarrow> yp_parser_t" where
  "octal_run p =
     (if is_octal_number_char (peek p)
      then octal_run (snd (match (advance 1 p) CHR ''_''))
      else p)"
  by pat_completeness auto
termination
  by (relation "measure (\<lambda>p. mapped_end p - cursor p)")
     (auto simp: match_def advance_def cursor_def peek_def byte_at_def mapped_end_def NUL_def
        is_octal_number_char_def split: if_splits)

declare octal_run.simps [simp del]

function hexadecimal_run :: "yp_parser_t \<Rightarrow> yp_parser_t" where
  "hexadecimal_run p =
     (if is_hexadecimal_number_char (peek p)
      then hexadecimal_run (snd (match (advance 1 p) CHR ''_''))
      else p)"
  by pat_completeness auto
termination
  by (relation "measure (\<lambda>p. mapped_end p - cursor p)")
     (auto simp: match_def advance_def cursor_def peek_def byte_at_def mapped_end_def NUL_def
        is_hexadecimal_number_char_def split: if_splits)

declare hexadecimal_run.simps [simp del]

text \<open>\<^verbatim>\<open>while (is_decimal_number_char(end)) end++;\<close>, the tail of the
  \<^verbatim>\<open>do ... while\<close> of an nth reference.\<close>

function digit_run :: "yp_parser_t \<Rightarrow> yp_parser_t" where
  "digit_run p = (if is_decimal_number_char (peek p) then digit_run (advance 1 p) else p)"
  by pat_completeness auto
termination
  by (relation "measure (\<lambda>p. mapped_end p - cursor p)")
     (auto simp: advance_def cursor_def peek_def byte_at_def mapped_end_def NUL_def
        is_decimal_number_char_def split: if_splits)

declare digit_run.simps [simp del]

text \<open>\<^verbatim>\<open>while (is_identifier_char(end)) end++;\<close>\<close>

function identifier_run :: "yp_parser_t \<Rightarrow> yp_parser_t" where
  "identifier_run p = (if is_identifier_char (peek p) then identifier_run (advance 1 p) else p)"
  by pat_completeness auto
termination
  by (relation "measure (\<lambda>p. mapped_end p - cursor p)")
     (auto simp: advance_def cursor_def peek_def byte_at_def mapped_end_def NUL_def is_identifier_char_def
        is_identifier_start_char_def is_decimal_number_char_def split: if_splits)

declare identifier_run.simps [simp del]

text \<open>\<^verbatim>\<open>while (is_non_newline_whitespace_char(end)) end++;\<close>\<close>

function whitespace_run :: "yp_parser_t \<Rightarrow> yp_parser_t" where
  "whitespace_run p =
     (if is_non_newline_whitespace_char (peek p) then whitespace_run (advance 1 p) else p)"
  by pat_completeness auto
termination
  by (relation "measure (\<lambda>p. mapped_end p - cursor p)")
     (auto simp: advance_def cursor_def peek_def byte_at_def mapped_end_def NUL_def
        is_non_newline_whitespace_char_def split: if_splits)

declare whitespace_run.simps [simp del]

text \<open>The body of a comment:
  \<^verbatim>\<open>while (*end != '\n' && *end != '\0') end++;\<close>\<close>

function comment_run :: "yp_parser_t \<Rightarrow> yp_parser_t" where
  "comment_run p =
     (if peek p \<noteq> CHR 0x0A \<and> peek p \<noteq> NUL then comment_run (advance 1 p) else p)"
  by pat_completeness auto
termination
  by (relation "measure (\<lambda>p. mapped_end p - cursor p)")
     (auto simp: advance_def cursor_def peek_def byte_at_def mapped_end_def split: if_splits)

declare comment_run.simps [simp del]

text \<open>The option letters after the terminator of a regular expression.\<close>

definition is_regexp_option :: "char \<Rightarrow> bool" where
  "is_regexp_option c \<longleftrightarrow>
     c = CHR ''e'' \<or> c = CHR ''i'' \<or> c = CHR ''m'' \<or> c = CHR ''n'' \<or> c = CHR ''s''
     \<or> c = CHR ''u'' \<or> c = CHR ''x''"

function regexp_options :: "yp_parser_t \<Rightarrow> yp_parser_t" where
  "regexp_options p = (if is_regexp_option (peek p) then regexp_options (advance 1 p) else p)"
  by pat_completeness auto
termination
  by (relation "measure (\<lambda>p. mapped_end p - cursor p)")
     (auto simp: advance_def cursor_def peek_def byte_at_def mapped_end_def NUL_def is_regexp_option_def
        split: if_splits)

declare regexp_options.simps [simp del]

text \<open>A line of embedded documentation:
  \<^verbatim>\<open>while ((end < parser->end) && (*end++ != '\n'));\<close>\<close>

function embdoc_line :: "yp_parser_t \<Rightarrow> yp_parser_t" where
  "embdoc_line p =
     (if cursor p < length (source p)
      then (if peek p \<noteq> CHR 0x0A then embdoc_line (advance 1 p) else advance 1 p)
      else p)"
  by pat_completeness auto
termination
  by (relation "measure (\<lambda>p. length (source p) - cursor p)")
     (auto simp: advance_def cursor_def)

declare embdoc_line.simps [simp del]

text \<open>The separator of a list:
  \<^verbatim>\<open>do { if (*end == '\n') lineno++; end++; } while (is_whitespace_char(end));\<close>\<close>

function words_sep_run :: "yp_parser_t \<Rightarrow> yp_parser_t" where
  "words_sep_run p =
     (let p1 = advance 1 (if peek p = CHR 0x0A then line_feed p else p)
      in if is_whitespace_char (peek p1) then words_sep_run p1 else p1)"
  by pat_completeness auto
termination
  by (relation "measure (\<lambda>p. mapped_end p - cursor p)")
     (auto simp: advance_def cursor_def peek_def byte_at_def mapped_end_def NUL_def line_feed_def
        is_whitespace_char_def is_non_newline_whitespace_char_def split: if_splits)

declare words_sep_run.simps [simp del]


section \<open>Specific token lexers\<close>

text \<open>The idiom \<^verbatim>\<open>match(parser, a) || match(parser, b)\<close>.\<close>

definition match_either :: "yp_parser_t \<Rightarrow> char \<Rightarrow> char \<Rightarrow> bool \<times> yp_parser_t" where
  "match_either p a b = (let (m, p1) = match p a in if m then (True, p1) else match p1 b)"

text \<open>The idiom \<^verbatim>\<open>return match(parser, c) ? a : b;\<close>\<close>

definition match_select ::
  "yp_parser_t \<Rightarrow> char \<Rightarrow> yp_token_type_t \<Rightarrow> yp_token_type_t \<Rightarrow> yp_token_type_t \<times> yp_parser_t"
where
  "match_select p c a b = (let (m, p1) = match p c in (if m then a else b, p1))"

definition lex_optional_float_suffix :: "yp_parser_t \<Rightarrow> yp_token_type_t \<times> yp_parser_t" where
  "lex_optional_float_suffix p =
     (let exponent = (\<lambda>type p0.
            let (m, p1) = match_either p0 CHR ''e'' CHR ''E'' in
            if m then
              (let p2 = snd (match_either p1 CHR ''+'' CHR ''-'') in
               if is_decimal_number_char (peek p2)
               then (YP_TOKEN_FLOAT, decimal_run (advance 1 p2))
               else (YP_TOKEN_INVALID, p2))
            else (type, p1))
      in if peek p = CHR ''.'' then
           (if cursor p + 1 < length (source p) \<and> is_decimal_number_char (peek_at p 1)
            then exponent YP_TOKEN_FLOAT (decimal_run (advance 2 p))
            else (YP_TOKEN_INTEGER, p))
         else exponent YP_TOKEN_INTEGER p)"

text \<open>The last statement of \<^verbatim>\<open>lex_numeric_prefix\<close>: a number that ends in
  an underscore is invalid.\<close>

definition trailing_underscore_check ::
  "yp_token_type_t \<times> yp_parser_t \<Rightarrow> yp_token_type_t \<times> yp_parser_t"
where
  "trailing_underscore_check r =
     (case r of (type, p) \<Rightarrow>
        if peek_back p 1 = CHR ''_'' then (YP_TOKEN_INVALID, p) else (type, p))"

definition lex_numeric_prefix :: "yp_parser_t \<Rightarrow> yp_token_type_t \<times> yp_parser_t" where
  "lex_numeric_prefix p =
     (if peek_back p 1 = CHR ''0'' then
        (let c = peek p in
         if c = CHR ''d'' \<or> c = CHR ''D'' then
           (let p1 = advance 1 p in
            if \<not> is_decimal_number_char (peek p1) then (YP_TOKEN_INVALID, p1)
            else trailing_underscore_check (YP_TOKEN_INTEGER, decimal_run p1))
         else if c = CHR ''b'' \<or> c = CHR ''B'' then
           (let p1 = advance 1 p in
            if \<not> is_binary_number_char (peek p1) then (YP_TOKEN_INVALID, p1)
            else trailing_underscore_check (YP_TOKEN_INTEGER, binary_run p1))
         else if c = CHR ''o'' \<or> c = CHR ''O'' then
           (let p1 = advance 1 p in
            if \<not> is_octal_number_char (peek p1) then (YP_TOKEN_INVALID, p1)
            else trailing_underscore_check (YP_TOKEN_INTEGER, octal_run p1))
         else if is_octal_number_char c then
           trailing_underscore_check (YP_TOKEN_INTEGER, octal_run p)
         else if c = CHR ''x'' \<or> c = CHR ''X'' then
           (let p1 = advance 1 p in
            if \<not> is_hexadecimal_number_char (peek p1) then (YP_TOKEN_INVALID, p1)
            else trailing_underscore_check (YP_TOKEN_INTEGER, hexadecimal_run p1))
         else if c = CHR ''.'' then
           trailing_underscore_check (lex_optional_float_suffix p)
         else if c = CHR ''e'' \<or> c = CHR ''E'' then
           trailing_underscore_check (lex_optional_float_suffix p)
         else trailing_underscore_check (YP_TOKEN_INTEGER, p))
      else trailing_underscore_check (lex_optional_float_suffix (decimal_run p)))"

definition lex_numeric :: "yp_parser_t \<Rightarrow> yp_token_type_t \<times> yp_parser_t" where
  "lex_numeric p =
     (let (type, p1) = lex_numeric_prefix p in
      if type \<noteq> YP_TOKEN_INVALID then
        (let (r, p2) = match p1 CHR ''r'';
             type1 = (if r then YP_TOKEN_RATIONAL_NUMBER else type);
             (i, p3) = match p2 CHR ''i'';
             type2 = (if i then YP_TOKEN_IMAGINARY_NUMBER else type1)
         in (type2, p3))
      else (type, p1))"

definition lex_global_variable :: "yp_parser_t \<Rightarrow> yp_token_type_t \<times> yp_parser_t" where
  "lex_global_variable p =
     (let c = peek p in
      if c \<in> set (''~*$?!@/'' @ [CHR 0x5C] @ '';,.=:<>'' @ [CHR 0x22]) then (YP_TOKEN_GLOBAL_VARIABLE, advance 1 p)
      else if c \<in> set [CHR ''&'', CHR 0x60, CHR 0x27, CHR ''+'']
        then (YP_TOKEN_BACK_REFERENCE, advance 1 p)
      else if CHR ''1'' \<le> c \<and> c \<le> CHR ''9''
        then (YP_TOKEN_NTH_REFERENCE, digit_run (advance 1 p))
      else if is_identifier_char c
        then (YP_TOKEN_GLOBAL_VARIABLE, identifier_run (advance 1 p))
      else (YP_TOKEN_INVALID, p))"

text \<open>
  The rows of the \<^verbatim>\<open>KEYWORD\<close> macro in \<^verbatim>\<open>lex_identifier\<close>, in
  source order: the value, the size and the token of each.
\<close>

definition keyword_table :: "(string \<times> nat \<times> yp_token_type_t) list" where
  "keyword_table =
    [(''__ENCODING__'', 12, YP_TOKEN_KEYWORD_ENCODING),
     (''__LINE__'', 8, YP_TOKEN_KEYWORD_LINE),
     (''__FILE__'', 8, YP_TOKEN_KEYWORD_FILE),
     (''alias'', 5, YP_TOKEN_KEYWORD_ALIAS),
     (''and'', 3, YP_TOKEN_KEYWORD_AND),
     (''begin'', 5, YP_TOKEN_KEYWORD_BEGIN),
     (''BEGIN'', 5, YP_TOKEN_KEYWORD_BEGIN_UPCASE),
     (''break'', 5, YP_TOKEN_KEYWORD_BREAK),
     (''case'', 4, YP_TOKEN_KEYWORD_CASE),
     (''class'', 5, YP_TOKEN_KEYWORD_CLASS),
     (''def'', 3, YP_TOKEN_KEYWORD_DEF),
     (''do'', 2, YP_TOKEN_KEYWORD_DO),
     (''else'', 4, YP_TOKEN_KEYWORD_ELSE),
     (''elsif'', 5, YP_TOKEN_KEYWORD_ELSIF),
     (''end'', 3, YP_TOKEN_KEYWORD_END),
     (''END'', 3, YP_TOKEN_KEYWORD_END_UPCASE),
     (''ensure'', 6, YP_TOKEN_KEYWORD_ENSURE),
     (''false'', 5, YP_TOKEN_KEYWORD_FALSE),
     (''for'', 3, YP_TOKEN_KEYWORD_FOR),
     (''if'', 2, YP_TOKEN_KEYWORD_IF),
     (''in'', 2, YP_TOKEN_KEYWORD_IN),
     (''module'', 6, YP_TOKEN_KEYWORD_MODULE),
     (''next'', 4, YP_TOKEN_KEYWORD_NEXT),
     (''nil'', 3, YP_TOKEN_KEYWORD_NIL),
     (''not'', 3, YP_TOKEN_KEYWORD_NOT),
     (''or'', 2, YP_TOKEN_KEYWORD_OR),
     (''redo'', 4, YP_TOKEN_KEYWORD_REDO),
     (''rescue'', 6, YP_TOKEN_KEYWORD_RESCUE),
     (''retry'', 5, YP_TOKEN_KEYWORD_RETRY),
     (''return'', 6, YP_TOKEN_KEYWORD_RETURN),
     (''self'', 4, YP_TOKEN_KEYWORD_SELF),
     (''super'', 5, YP_TOKEN_KEYWORD_SUPER),
     (''then'', 4, YP_TOKEN_KEYWORD_THEN),
     (''true'', 4, YP_TOKEN_KEYWORD_TRUE),
     (''undef'', 5, YP_TOKEN_KEYWORD_UNDEF),
     (''unless'', 6, YP_TOKEN_KEYWORD_UNLESS),
     (''until'', 5, YP_TOKEN_KEYWORD_UNTIL),
     (''when'', 4, YP_TOKEN_KEYWORD_WHEN),
     (''while'', 5, YP_TOKEN_KEYWORD_WHILE),
     (''yield'', 5, YP_TOKEN_KEYWORD_YIELD)]"

text \<open>The test of one \<^verbatim>\<open>KEYWORD\<close> row:
  \<^verbatim>\<open>width == size && strncmp(parser->current.start, value, size) == 0\<close>.\<close>

definition keyword_test :: "yp_parser_t \<Rightarrow> int \<Rightarrow> string \<Rightarrow> nat \<Rightarrow> bool" where
  "keyword_test p width v sz =
     (if width = int sz then strncmp_eq p (tok_start (current p)) v sz else False)"

text \<open>The rows are tried in order; the first whose test holds returns its token.\<close>

fun keyword_lookup ::
  "yp_parser_t \<Rightarrow> int \<Rightarrow> (string \<times> nat \<times> yp_token_type_t) list \<Rightarrow> yp_token_type_t option"
where
  "keyword_lookup p width [] = None"
| "keyword_lookup p width ((v, sz, token) # rows) =
     (if keyword_test p width v sz then Some token else keyword_lookup p width rows)"

definition lex_identifier :: "yp_parser_t \<Rightarrow> yp_token_type_t \<times> yp_parser_t" where
  "lex_identifier p0 =
     (let p = identifier_run p0;
          width = int (cursor p) - int (tok_start (current p));
          (suffix, p1) =
            (if cursor p + 1 < length (source p) \<and> peek_at p 1 \<noteq> CHR ''=''
             then match_either p CHR ''!'' CHR ''?''
             else (False, p))
      in if suffix then
           (if tok_type (previous p1) \<noteq> YP_TOKEN_DOT
               \<and> keyword_test p1 (width + 1) ''defined?'' 8
            then (YP_TOKEN_KEYWORD_DEFINED, p1)
            else (YP_TOKEN_IDENTIFIER, p1))
         else
           (case (if tok_type (previous p1) \<noteq> YP_TOKEN_DOT
                  then keyword_lookup p1 width keyword_table else None) of
              Some token \<Rightarrow> (token, p1)
            | None \<Rightarrow>
                (let start = byte_at p1 (tok_start (current p1)) in
                 (if CHR ''A'' \<le> start \<and> start \<le> CHR ''Z''
                  then YP_TOKEN_CONSTANT else YP_TOKEN_IDENTIFIER, p1))))"


section \<open>The lexer\<close>

text \<open>The idioms \<^verbatim>\<open>if (match(parser, c)) A; B\<close> and
  \<^verbatim>\<open>if (g && match(parser, c)) A; B\<close>: \<open>yes\<close> runs on the parser after
  the byte was consumed, \<open>no\<close> on the parser as it was.\<close>

definition match_then ::
  "yp_parser_t \<Rightarrow> char \<Rightarrow> (yp_parser_t \<Rightarrow> 'a) \<Rightarrow> (yp_parser_t \<Rightarrow> 'a) \<Rightarrow> 'a"
where
  "match_then p c yes no = (let (m, p1) = match p c in if m then yes p1 else no p1)"

definition guarded_match_then ::
  "bool \<Rightarrow> yp_parser_t \<Rightarrow> char \<Rightarrow> (yp_parser_t \<Rightarrow> 'a) \<Rightarrow> (yp_parser_t \<Rightarrow> 'a) \<Rightarrow> 'a"
where
  "guarded_match_then g p c yes no = (if g then match_then p c yes no else no p)"

text \<open>A percent literal: the type letter is consumed, the next byte is consumed as the
  delimiter, and the mode is pushed with the terminator that pairs with it.\<close>

definition percent_literal ::
  "yp_parser_t \<Rightarrow> yp_lex_tag \<Rightarrow> bool \<Rightarrow> yp_token_type_t \<Rightarrow> yp_token_type_t \<times> yp_parser_t"
where
  "percent_literal p tag interp token =
     (let p1 = advance 1 p;
          delimiter = peek p1;
          p2 = advance 1 p1
      in (token, push_lex_mode p2 (mk_lex_mode tag (terminator delimiter) interp)))"

text \<open>
  The cases \<^verbatim>\<open>YP_LEX_DEFAULT\<close> and \<^verbatim>\<open>YP_LEX_EMBEXPR\<close> of
  \<^verbatim>\<open>lex_token_type\<close>. \<open>m\<close> is the lex mode that
  \<^verbatim>\<open>parser->lex_modes.current\<close> points at. The chain of tests follows the
  cases of the \<^verbatim>\<open>switch\<close> in source order.
\<close>

definition lex_default ::
  "yp_lex_mode_t \<Rightarrow> yp_parser_t \<Rightarrow> (yp_token_type_t \<times> yp_parser_t) option"
where
  "lex_default m p0 =
     (let ps = start_token (whitespace_run p0);
          c = peek ps;
          p = advance 1 ps;
          prev = tok_type (previous p);
          after_def_or_dot = (prev = YP_TOKEN_KEYWORD_DEF \<or> prev = YP_TOKEN_DOT)
      in
      if c = NUL \<or> c = CHR 0x04 \<or> c = CHR 0x1A then Some (YP_TOKEN_EOF, p)
      else if c = CHR ''#'' then
        Some (YP_TOKEN_COMMENT, snd (match (comment_run p) CHR 0x0A))
      else if c = CHR 0x0A then Some (YP_TOKEN_NEWLINE, line_feed p)
      else if c = CHR '','' then Some (YP_TOKEN_COMMA, p)
      else if c = CHR ''('' then Some (YP_TOKEN_PARENTHESIS_LEFT, p)
      else if c = CHR '')'' then Some (YP_TOKEN_PARENTHESIS_RIGHT, p)
      else if c = CHR '';'' then Some (YP_TOKEN_SEMICOLON, p)
      else if c = CHR ''['' then
        guarded_match_then (prev = YP_TOKEN_DOT) p CHR '']''
          (\<lambda>p. Some (YP_TOKEN_BRACKET_LEFT_RIGHT, p))
          (\<lambda>p. Some (YP_TOKEN_BRACKET_LEFT, p))
      else if c = CHR '']'' then Some (YP_TOKEN_BRACKET_RIGHT, p)
      else if c = CHR ''{'' then
        (if prev = YP_TOKEN_MINUS_GREATER then Some (YP_TOKEN_LAMBDA_BEGIN, p)
         else Some (YP_TOKEN_BRACE_LEFT, p))
      else if c = CHR ''}'' then
        (if lex_mode m = YP_LEX_EMBEXPR
         then map_option (Pair YP_TOKEN_EMBEXPR_END) (pop_lex_mode p)
         else Some (YP_TOKEN_BRACE_RIGHT, p))
      else if c = CHR ''*'' then
        match_then p CHR ''*''
          (\<lambda>p. Some (match_select p CHR ''='' YP_TOKEN_STAR_STAR_EQUAL YP_TOKEN_STAR_STAR))
          (\<lambda>p. Some (match_select p CHR ''='' YP_TOKEN_STAR_EQUAL YP_TOKEN_STAR))
      else if c = CHR ''!'' then
        match_then p CHR ''='' (\<lambda>p. Some (YP_TOKEN_BANG_EQUAL, p))
          (\<lambda>p. match_then p CHR ''~'' (\<lambda>p. Some (YP_TOKEN_BANG_TILDE, p))
          (\<lambda>p. guarded_match_then after_def_or_dot p CHR ''@''
                  (\<lambda>p. Some (YP_TOKEN_BANG_AT, p))
                  (\<lambda>p. Some (YP_TOKEN_BANG, p))))
      else if c = CHR ''='' then
        (if peek_back p 2 = CHR 0x0A \<and> strncmp_eq p (cursor p) (''begin'' @ [CHR 0x0A]) 6
         then Some (YP_TOKEN_EMBDOC_BEGIN,
                    push_lex_mode (advance 6 p) (mk_lex_mode YP_LEX_EMBDOC NUL False))
         else
           match_then p CHR ''>'' (\<lambda>p. Some (YP_TOKEN_EQUAL_GREATER, p))
             (\<lambda>p. match_then p CHR ''~'' (\<lambda>p. Some (YP_TOKEN_EQUAL_TILDE, p))
             (\<lambda>p. match_then p CHR ''=''
                     (\<lambda>p. Some (match_select p CHR ''=''
                                   YP_TOKEN_EQUAL_EQUAL_EQUAL YP_TOKEN_EQUAL_EQUAL))
                     (\<lambda>p. Some (YP_TOKEN_EQUAL, p)))))
      else if c = CHR ''<'' then
        match_then p CHR ''<''
          (\<lambda>p. match_then p CHR ''='' (\<lambda>p. Some (YP_TOKEN_LESS_LESS_EQUAL, p))
            (\<lambda>p. let (heredoc, p1) = match_either p CHR ''-'' CHR ''~'' in
                  if heredoc then Some (YP_TOKEN_EOF, p1)
                  else Some (YP_TOKEN_LESS_LESS, p1)))
          (\<lambda>p. match_then p CHR ''=''
            (\<lambda>p. Some (match_select p CHR ''>'' YP_TOKEN_LESS_EQUAL_GREATER YP_TOKEN_LESS_EQUAL))
            (\<lambda>p. Some (YP_TOKEN_LESS, p)))
      else if c = CHR ''>'' then
        match_then p CHR ''>''
          (\<lambda>p. Some (match_select p CHR ''=''
                        YP_TOKEN_GREATER_GREATER_EQUAL YP_TOKEN_GREATER_GREATER))
          (\<lambda>p. Some (match_select p CHR ''='' YP_TOKEN_GREATER_EQUAL YP_TOKEN_GREATER))
      else if c = CHR 0x22 then
        Some (YP_TOKEN_STRING_BEGIN,
              push_lex_mode p (mk_lex_mode YP_LEX_STRING (CHR 0x22) True))
      else if c = CHR 0x60 then
        Some (YP_TOKEN_BACKTICK,
              push_lex_mode p (mk_lex_mode YP_LEX_STRING (CHR 0x60) True))
      else if c = CHR 0x27 then
        Some (YP_TOKEN_STRING_BEGIN,
              push_lex_mode p (mk_lex_mode YP_LEX_STRING (CHR 0x27) False))
      else if c = CHR ''?'' then
        (if is_identifier_char (peek p) then Some (YP_TOKEN_CHARACTER_LITERAL, advance 1 p)
         else Some (YP_TOKEN_QUESTION_MARK, p))
      else if c = CHR ''&'' then
        match_then p CHR ''&''
          (\<lambda>p. Some (match_select p CHR ''=''
                        YP_TOKEN_AMPERSAND_AMPERSAND_EQUAL YP_TOKEN_AMPERSAND_AMPERSAND))
          (\<lambda>p. Some (match_select p CHR ''='' YP_TOKEN_AMPERSAND_EQUAL YP_TOKEN_AMPERSAND))
      else if c = CHR ''|'' then
        match_then p CHR ''|''
          (\<lambda>p. Some (match_select p CHR ''='' YP_TOKEN_PIPE_PIPE_EQUAL YP_TOKEN_PIPE_PIPE))
          (\<lambda>p. Some (match_select p CHR ''='' YP_TOKEN_PIPE_EQUAL YP_TOKEN_PIPE))
      else if c = CHR ''+'' then
        match_then p CHR ''='' (\<lambda>p. Some (YP_TOKEN_PLUS_EQUAL, p))
          (\<lambda>p. guarded_match_then after_def_or_dot p CHR ''@''
                  (\<lambda>p. Some (YP_TOKEN_PLUS_AT, p))
                  (\<lambda>p. Some (YP_TOKEN_PLUS, p)))
      else if c = CHR ''-'' then
        match_then p CHR ''>'' (\<lambda>p. Some (YP_TOKEN_MINUS_GREATER, p))
          (\<lambda>p. match_then p CHR ''='' (\<lambda>p. Some (YP_TOKEN_MINUS_EQUAL, p))
          (\<lambda>p. guarded_match_then after_def_or_dot p CHR ''@''
                  (\<lambda>p. Some (YP_TOKEN_MINUS_AT, p))
                  (\<lambda>p. Some (YP_TOKEN_MINUS, p))))
      else if c = CHR ''.'' then
        match_then p CHR ''.''
          (\<lambda>p. Some (match_select p CHR ''.'' YP_TOKEN_DOT_DOT_DOT YP_TOKEN_DOT_DOT))
          (\<lambda>p. Some (YP_TOKEN_DOT, p))
      else if is_decimal_number_char c then Some (lex_numeric p)
      else if c = CHR '':'' then
        match_then p CHR '':'' (\<lambda>p. Some (YP_TOKEN_COLON_COLON, p))
          (\<lambda>p. if is_identifier_char (peek p)
                then Some (YP_TOKEN_SYMBOL_BEGIN,
                           push_lex_mode p (mk_lex_mode YP_LEX_SYMBOL NUL False))
                else Some (YP_TOKEN_COLON, p))
      else if c = CHR ''/'' then
        match_then p CHR ''='' (\<lambda>p. Some (YP_TOKEN_SLASH_EQUAL, p))
          (\<lambda>p. if peek p = CHR '' '' then Some (YP_TOKEN_SLASH, p)
                else Some (YP_TOKEN_REGEXP_BEGIN,
                           push_lex_mode p (mk_lex_mode YP_LEX_REGEXP (CHR ''/'') False)))
      else if c = CHR ''^'' then Some (match_select p CHR ''='' YP_TOKEN_CARET_EQUAL YP_TOKEN_CARET)
      else if c = CHR ''~'' then
        guarded_match_then after_def_or_dot p CHR ''@''
          (\<lambda>p. Some (YP_TOKEN_TILDE_AT, p))
          (\<lambda>p. Some (YP_TOKEN_TILDE, p))
      else if c = CHR 0x5C then Some (YP_TOKEN_INVALID, p)
      else if c = CHR ''%'' then
        (let k = peek p in
         if k = CHR ''='' then Some (YP_TOKEN_PERCENT_EQUAL, advance 1 p)
         else if k = CHR ''i'' then
           Some (percent_literal p YP_LEX_LIST False YP_TOKEN_PERCENT_LOWER_I)
         else if k = CHR ''I'' then
           Some (percent_literal p YP_LEX_LIST True YP_TOKEN_PERCENT_UPPER_I)
         else if k = CHR ''r'' then
           Some (percent_literal p YP_LEX_REGEXP True YP_TOKEN_REGEXP_BEGIN)
         else if k = CHR ''q'' then
           Some (percent_literal p YP_LEX_STRING False YP_TOKEN_STRING_BEGIN)
         else if k = CHR ''Q'' then
           Some (percent_literal p YP_LEX_STRING True YP_TOKEN_STRING_BEGIN)
         else if k = CHR ''w'' then
           Some (percent_literal p YP_LEX_LIST False YP_TOKEN_PERCENT_LOWER_W)
         else if k = CHR ''W'' then
           Some (percent_literal p YP_LEX_LIST True YP_TOKEN_PERCENT_UPPER_W)
         else if k = CHR ''x'' then
           Some (percent_literal p YP_LEX_STRING True YP_TOKEN_PERCENT_LOWER_X)
         else Some (YP_TOKEN_PERCENT, p))
      else if c = CHR ''$'' then Some (lex_global_variable p)
      else if c = CHR ''@'' then
        (let (type, p1) = match_select p CHR ''@''
                            YP_TOKEN_CLASS_VARIABLE YP_TOKEN_INSTANCE_VARIABLE in
         if is_identifier_start_char (peek p1)
         then Some (type, identifier_run (advance 1 p1))
         else Some (YP_TOKEN_INVALID, p1))
      else
        (if \<not> is_identifier_start_char c then Some (YP_TOKEN_INVALID, p)
         else
           (let (type, p1) = lex_identifier p in
            if peek p1 = CHR '':'' \<and> peek_at p1 1 \<noteq> CHR '':''
            then Some (YP_TOKEN_LABEL, advance 1 p1)
            else Some (type, p1))))"


text \<open>The case \<^verbatim>\<open>YP_LEX_EMBDOC\<close>.\<close>

definition lex_embdoc ::
  "yp_error_handler_t \<Rightarrow> yp_parser_t \<Rightarrow> (yp_token_type_t \<times> yp_parser_t) option"
where
  "lex_embdoc eh p0 =
     (let p = start_token p0 in
      if strncmp_eq p (cursor p) (''=end'' @ [CHR 0x0A]) 5
      then map_option (Pair YP_TOKEN_EMBDOC_END) (pop_lex_mode (advance 5 p))
      else
        (let p1 = embdoc_line p in
         if cursor p1 < length (source p1) then Some (YP_TOKEN_EMBDOC_LINE, line_feed p1)
         else Some (unterminated_embdoc eh p1)))"

text \<open>The case \<^verbatim>\<open>YP_LEX_LIST\<close>: the loop over a word, then the case.\<close>

function list_word ::
  "yp_error_handler_t \<Rightarrow> yp_lex_mode_t \<Rightarrow> yp_parser_t
     \<Rightarrow> (yp_token_type_t \<times> yp_parser_t) option"
where
  "list_word eh m p =
     (if cursor p < length (source p) then
        (if is_whitespace_char (peek p) then Some (YP_TOKEN_STRING_CONTENT, p)
         else if peek p = lex_term m then
           (if tok_start (current p) < cursor p then Some (YP_TOKEN_STRING_CONTENT, p)
            else map_option (Pair YP_TOKEN_STRING_END) (pop_lex_mode (advance 1 p)))
         else list_word eh m (advance 1 p))
      else Some (unterminated_list eh p))"
  by pat_completeness auto
termination
  by (relation "measure (\<lambda>(eh, m, p). length (source p) - cursor p)")
     (auto simp: advance_def cursor_def)

declare list_word.simps [simp del]

definition lex_list ::
  "yp_error_handler_t \<Rightarrow> yp_lex_mode_t \<Rightarrow> yp_parser_t
     \<Rightarrow> (yp_token_type_t \<times> yp_parser_t) option"
where
  "lex_list eh m p =
     (if is_whitespace_char (peek p)
      then Some (YP_TOKEN_WORDS_SEP, words_sep_run (start_token p))
      else list_word eh m (start_token p))"

text \<open>The case \<^verbatim>\<open>YP_LEX_REGEXP\<close>. The loop does not look at
  \<^verbatim>\<open>interp\<close>.\<close>

function regexp_content ::
  "yp_error_handler_t \<Rightarrow> yp_lex_mode_t \<Rightarrow> yp_parser_t
     \<Rightarrow> (yp_token_type_t \<times> yp_parser_t) option"
where
  "regexp_content eh m p =
     (if cursor p < length (source p) then
        (if peek p = lex_term m then Some (YP_TOKEN_STRING_CONTENT, p)
         else
           (let p1 = (if peek p = CHR 0x0A then line_feed p else p) in
            if peek p1 = CHR ''#'' \<and> peek_at p1 1 = CHR ''{'' then
              (if cursor p1 > tok_start (current p1) then Some (YP_TOKEN_STRING_CONTENT, p1)
               else Some (YP_TOKEN_EMBEXPR_BEGIN,
                          push_lex_mode (advance 2 p1) (mk_lex_mode YP_LEX_EMBEXPR NUL False)))
            else regexp_content eh m (advance 1 p1)))
      else Some (unterminated_regexp eh p))"
  by pat_completeness auto
termination
  by (relation "measure (\<lambda>(eh, m, p). length (source p) - cursor p)")
     (auto simp: advance_def cursor_def line_feed_def)

declare regexp_content.simps [simp del]

definition lex_regexp ::
  "yp_error_handler_t \<Rightarrow> yp_lex_mode_t \<Rightarrow> yp_parser_t
     \<Rightarrow> (yp_token_type_t \<times> yp_parser_t) option"
where
  "lex_regexp eh m p0 =
     match_then (start_token p0) (lex_term m)
       (\<lambda>p. map_option (Pair YP_TOKEN_REGEXP_END) (pop_lex_mode (regexp_options p)))
       (\<lambda>p. regexp_content eh m p)"

text \<open>The case \<^verbatim>\<open>YP_LEX_STRING\<close>. After \<^verbatim>\<open>#\<close> the cases
  \<^verbatim>\<open>'@'\<close> and \<^verbatim>\<open>'$'\<close> of the inner \<^verbatim>\<open>switch\<close> only
  \<^verbatim>\<open>break\<close>, as every byte other than \<^verbatim>\<open>'{'\<close> does.\<close>

function string_content ::
  "yp_error_handler_t \<Rightarrow> yp_lex_mode_t \<Rightarrow> yp_parser_t
     \<Rightarrow> (yp_token_type_t \<times> yp_parser_t) option"
where
  "string_content eh m p =
     (if cursor p < length (source p) then
        (if peek p = lex_term m then Some (YP_TOKEN_STRING_CONTENT, p)
         else
           (let p1 = (if peek p = CHR 0x0A then line_feed p else p) in
            if lex_interp m \<and> peek p1 = CHR ''#'' \<and> peek_at p1 1 = CHR ''{'' then
              (if cursor p1 > tok_start (current p1) then Some (YP_TOKEN_STRING_CONTENT, p1)
               else Some (YP_TOKEN_EMBEXPR_BEGIN,
                          push_lex_mode (advance 2 p1) (mk_lex_mode YP_LEX_EMBEXPR NUL False)))
            else string_content eh m (advance 1 p1)))
      else Some (unterminated_string eh p))"
  by pat_completeness auto
termination
  by (relation "measure (\<lambda>(eh, m, p). length (source p) - cursor p)")
     (auto simp: advance_def cursor_def line_feed_def)

declare string_content.simps [simp del]

definition lex_string ::
  "yp_error_handler_t \<Rightarrow> yp_lex_mode_t \<Rightarrow> yp_parser_t
     \<Rightarrow> (yp_token_type_t \<times> yp_parser_t) option"
where
  "lex_string eh m p0 =
     match_then (start_token p0) (lex_term m)
       (\<lambda>p. map_option (Pair YP_TOKEN_STRING_END) (pop_lex_mode p))
       (\<lambda>p. string_content eh m p)"

text \<open>The case \<^verbatim>\<open>YP_LEX_SYMBOL\<close>. The test
  \<^verbatim>\<open>end < parser->end && is_identifier_start_char(end++)\<close> consumes a byte
  whenever its first half holds; the mode is popped only when the whole test holds.\<close>

definition lex_symbol :: "yp_parser_t \<Rightarrow> (yp_token_type_t \<times> yp_parser_t) option" where
  "lex_symbol p0 =
     (let p = start_token p0 in
      if cursor p < length (source p) then
        (let c = peek p; p1 = advance 1 p in
         if is_identifier_start_char c then
           (case pop_lex_mode p1 of
              None \<Rightarrow> None
            | Some p2 \<Rightarrow>
                (let (type, p3) = lex_identifier p2 in
                 Some (match_select p3 CHR ''='' YP_TOKEN_IDENTIFIER type)))
         else Some (YP_TOKEN_INVALID, p1))
      else Some (YP_TOKEN_INVALID, p))"

text \<open>
  \<^verbatim>\<open>lex_token_type\<close>: the \<^verbatim>\<open>switch\<close> on
  \<^verbatim>\<open>parser->lex_modes.current->mode\<close>. A mode tag outside the enumeration
  matches no case and reaches the last statement of the function.
\<close>

definition lex_token_type ::
  "yp_error_handler_t \<Rightarrow> yp_parser_t \<Rightarrow> (yp_token_type_t \<times> yp_parser_t) option"
where
  "lex_token_type eh p =
     (case deref p (lex_modes_current p) of
        None \<Rightarrow> None
      | Some m \<Rightarrow>
          (case lex_mode m of
             YP_LEX_DEFAULT \<Rightarrow> lex_default m p
           | YP_LEX_EMBEXPR \<Rightarrow> lex_default m p
           | YP_LEX_EMBDOC \<Rightarrow> lex_embdoc eh p
           | YP_LEX_LIST \<Rightarrow> lex_list eh m p
           | YP_LEX_REGEXP \<Rightarrow> lex_regexp eh m p
           | YP_LEX_STRING \<Rightarrow> lex_string eh m p
           | YP_LEX_SYMBOL \<Rightarrow> lex_symbol p
           | YP_LEX_OUT_OF_RANGE \<Rightarrow> Some (YP_TOKEN_INVALID, p)))"

section \<open>External functions\<close>

text \<open>
  \<^verbatim>\<open>yp_parser_init\<close>. The members the initialiser does not name are zero:
  the three upper slots of the inline array, \<^verbatim>\<open>previous\<close> and the type of
  \<^verbatim>\<open>current\<close>. The byte before the buffer, the bytes after its sentinel and
  the content of the heap are what the host's memory holds.
\<close>

definition yp_parser_init ::
  "string \<Rightarrow> char \<Rightarrow> string \<Rightarrow> (nat \<Rightarrow> yp_lex_mode_t) \<Rightarrow> yp_parser_t"
where
  "yp_parser_init src pre post mem =
     \<lparr>lex_modes_current = Inline 0,
      lex_modes_stack = replicate YP_LEX_STACK_SIZE (mk_lex_mode YP_LEX_DEFAULT NUL False),
      lex_modes_index = 0,
      source = src,
      previous = \<lparr>tok_type = 0, tok_start = 0, tok_end = 0\<rparr>,
      current = \<lparr>tok_type = 0, tok_start = 0, tok_end = 0\<rparr>,
      lineno = 1,
      mem_before = pre,
      mem_after = post,
      heap = mem,
      heap_brk = 0,
      heap_live = []\<rparr>"

definition yp_lex_token :: "yp_error_handler_t \<Rightarrow> yp_parser_t \<Rightarrow> yp_parser_t option" where
  "yp_lex_token eh p =
     (case lex_token_type eh (p\<lparr>previous := current p\<rparr>) of
        None \<Rightarrow> None
      | Some (type, p1) \<Rightarrow> Some (p1\<lparr>current := (current p1)\<lparr>tok_type := type\<rparr>\<rparr>))"

section \<open>The host\<close>

definition unrecoverable :: "yp_parser_t \<Rightarrow> yp_token_type_t \<times> yp_parser_t" where
  "unrecoverable p = (YP_TOKEN_EOF, p)"

definition default_error_handler :: yp_error_handler_t where
  "default_error_handler =
     \<lparr>unterminated_embdoc = unrecoverable,
      unterminated_list = unrecoverable,
      unterminated_regexp = unrecoverable,
      unterminated_string = unrecoverable\<rparr>"


text \<open>
  The host calls \<^verbatim>\<open>yp_lex_token\<close> again and again and looks at
  \<^verbatim>\<open>parser.current\<close> after each call. \<open>lex_n eh n p\<close> is the parser after
  \<open>n\<close> calls, \<open>token_stream eh n p\<close> the tokens that the first \<open>n\<close> calls leave
  in \<^verbatim>\<open>parser.current\<close>, each with its type, its two offsets and its lexeme:
  the \<^verbatim>\<open>end - start\<close> bytes from \<^verbatim>\<open>start\<close> on, which
  \<^verbatim>\<open>token_inspect\<close> copies into a string.
\<close>

fun lex_n :: "yp_error_handler_t \<Rightarrow> nat \<Rightarrow> yp_parser_t \<Rightarrow> yp_parser_t option" where
  "lex_n eh 0 p = Some p"
| "lex_n eh (Suc n) p =
     (case yp_lex_token eh p of None \<Rightarrow> None | Some p1 \<Rightarrow> lex_n eh n p1)"

definition lexeme :: "yp_parser_t \<Rightarrow> string" where
  "lexeme p = map (byte_at p) [tok_start (current p) ..< tok_end (current p)]"

fun token_stream ::
  "yp_error_handler_t \<Rightarrow> nat \<Rightarrow> yp_parser_t \<Rightarrow> (yp_token_type_t \<times> nat \<times> nat \<times> string) list option"
where
  "token_stream eh 0 p = Some []"
| "token_stream eh (Suc n) p =
     (case yp_lex_token eh p of
        None \<Rightarrow> None
      | Some p1 \<Rightarrow>
          map_option
            (Cons (tok_type (current p1), tok_start (current p1), tok_end (current p1), lexeme p1))
            (token_stream eh n p1))"

text \<open>The tokens of the first \<open>n\<close> calls on a fresh parser for \<open>src\<close>, with the
  default error handler of the host; \<open>pre\<close> is the byte before the buffer, \<open>post\<close>
  the bytes after its sentinel and \<open>mem\<close> the content of the heap.\<close>

definition lex_source ::
  "nat \<Rightarrow> string \<Rightarrow> char \<Rightarrow> string \<Rightarrow> (nat \<Rightarrow> yp_lex_mode_t)
     \<Rightarrow> (yp_token_type_t \<times> nat \<times> nat \<times> string) list option"
where
  "lex_source n src pre post mem =
     token_stream default_error_handler n (yp_parser_init src pre post mem)"

text \<open>A heap whose blocks hold zero bytes.\<close>

definition zero_memory :: "nat \<Rightarrow> yp_lex_mode_t" where
  "zero_memory = (\<lambda>a. mk_lex_mode YP_LEX_DEFAULT NUL False)"

text \<open>The lex mode that \<^verbatim>\<open>parser->lex_modes.current\<close> points at.\<close>

definition top_mode :: "yp_parser_t \<Rightarrow> yp_lex_mode_t option" where
  "top_mode p = deref p (lex_modes_current p)"

text \<open>The deeply nested interpolation \<^verbatim>\<open>"a#{"b#{"c#{"d"}"}"}"\<close> of the test
  scenarios.\<close>

definition deep_interpolation :: string where
  "deep_interpolation =
     [CHR 0x22] @ ''a#{'' @ [CHR 0x22] @ ''b#{'' @ [CHR 0x22] @ ''c#{'' @ [CHR 0x22] @ ''d''
       @ [CHR 0x22] @ ''}'' @ [CHR 0x22] @ ''}'' @ [CHR 0x22] @ ''}'' @ [CHR 0x22]"

text \<open>A parser in EmbDoc mode with one documentation line left, whose newline is the last
  byte of the buffer: the state after \<^verbatim>\<open>=begin\<close> and its newline were consumed
  at the start of the 11-byte text \<^verbatim>\<open>=begin\ndoc\n\<close>.\<close>

definition embdoc_tail :: yp_parser_t where
  "embdoc_tail =
     push_lex_mode
       (advance 7
          (yp_parser_init (''=begin'' @ [CHR 0x0A] @ ''doc'' @ [CHR 0x0A]) (CHR 0x0A) [] zero_memory))
       (mk_lex_mode YP_LEX_EMBDOC NUL False)"

text \<open>The two offsets of an entry of a token stream.\<close>

definition tk_start :: "yp_token_type_t \<times> nat \<times> nat \<times> string \<Rightarrow> nat" where
  "tk_start x = fst (snd x)"

definition tk_end :: "yp_token_type_t \<times> nat \<times> nat \<times> string \<Rightarrow> nat" where
  "tk_end x = fst (snd (snd x))"

text \<open>The parser of the host after \<open>n\<close> calls on a source text, over a zeroed heap,
  with a newline before the buffer and the bytes \<open>post\<close> after its sentinel (the
  fresh parser if a call has no defined result).\<close>

definition after_calls_in :: "nat \<Rightarrow> string \<Rightarrow> string \<Rightarrow> yp_parser_t" where
  "after_calls_in n src post =
     (case lex_n default_error_handler n (yp_parser_init src (CHR 0x0A) post zero_memory) of
        Some p \<Rightarrow> p
      | None \<Rightarrow> yp_parser_init src (CHR 0x0A) post zero_memory)"

text \<open>The same with no memory mapped after the sentinel.\<close>

definition after_calls :: "nat \<Rightarrow> string \<Rightarrow> yp_parser_t" where
  "after_calls n src = after_calls_in n src []"
section \<open>What a call changes\<close>

text \<open>
  \<open>scanned p q\<close>: \<open>q\<close> is \<open>p\<close> with the read position moved forward and the line
  counter raised, and nothing else changed. \<open>restacked q p'\<close>: \<open>p'\<close> is \<open>q\<close>, or
  \<open>q\<close> after one push of a mode with a tag of the enumeration, or \<open>q\<close> after one pop.
  \<open>moved p p'\<close>: \<open>p'\<close> is \<open>p\<close> scanned, restacked and scanned again.
  \<open>stepped p r\<close>: the result \<open>r\<close> of a lexing function is a parser moved from
  \<open>p\<close>, and there is no result only if the stack of \<open>p\<close> cannot be popped.
  \<open>lexed p r\<close>: the result of a call is \<open>p\<close> itself, or \<open>p\<close> was scanned, had the
  token start set to the read position and was then moved; there is no result only if the
  top of the stack of \<open>p\<close> cannot be read or the stack cannot be popped.
\<close>

definition scanned :: "yp_parser_t \<Rightarrow> yp_parser_t \<Rightarrow> bool" where
  "scanned p q \<longleftrightarrow> (\<exists>n k. q = (advance n p)\<lparr>lineno := lineno p + int k\<rparr>)"

definition restacked :: "yp_parser_t \<Rightarrow> yp_parser_t \<Rightarrow> bool" where
  "restacked q p' \<longleftrightarrow>
     p' = q
     \<or> (\<exists>m. lex_mode m \<noteq> YP_LEX_OUT_OF_RANGE \<and> p' = push_lex_mode q m)
     \<or> pop_lex_mode q = Some p'"

definition moved :: "yp_parser_t \<Rightarrow> yp_parser_t \<Rightarrow> bool" where
  "moved p p' \<longleftrightarrow> (\<exists>a b. scanned p a \<and> restacked a b \<and> scanned b p')"

definition stepped :: "yp_parser_t \<Rightarrow> (yp_token_type_t \<times> yp_parser_t) option \<Rightarrow> bool" where
  "stepped p r \<longleftrightarrow>
     (case r of None \<Rightarrow> pop_lex_mode p = None | Some (t, p') \<Rightarrow> moved p p')"

definition lexed :: "yp_parser_t \<Rightarrow> (yp_token_type_t \<times> yp_parser_t) option \<Rightarrow> bool" where
  "lexed p r \<longleftrightarrow>
     (case r of
        None \<Rightarrow> top_mode p = None \<or> pop_lex_mode p = None
      | Some (t, p') \<Rightarrow> p' = p \<or> (\<exists>s. scanned p s \<and> moved (start_token s) p'))"


section \<open>Reaching the end of the stream\<close>

text \<open>
  \<open>inline_stack p\<close>: the mode stack of \<open>p\<close> lies within the inline array, as
  \<^verbatim>\<open>yp_parser_init\<close> leaves it and the pushes and pops keep it up to the
  capacity: \<^verbatim>\<open>current\<close> points at slot \<^verbatim>\<open>index\<close>, slot 0 holds
  Default mode and every slot holds a tag of the enumeration. \<open>spilled p\<close>: the index
  is past the inline array. \<open>symbol_stuck p\<close>: Symbol mode is on top and the read
  position is at or past the end of the buffer. \<open>inside p\<close>: the read position is in
  the buffer or at its sentinel. \<open>calls_left p\<close> bounds the calls that can still
  return a token other than EOF.
\<close>

definition inline_stack :: "yp_parser_t \<Rightarrow> bool" where
  "inline_stack p \<longleftrightarrow>
     lex_modes_index p < YP_LEX_STACK_SIZE
     \<and> lex_modes_current p = Inline (lex_modes_index p)
     \<and> length (lex_modes_stack p) = YP_LEX_STACK_SIZE
     \<and> lex_mode (lex_modes_stack p ! 0) = YP_LEX_DEFAULT
     \<and> list_all (\<lambda>m. lex_mode m \<noteq> YP_LEX_OUT_OF_RANGE) (lex_modes_stack p)"

definition spilled :: "yp_parser_t \<Rightarrow> bool" where
  "spilled p \<longleftrightarrow> YP_LEX_STACK_SIZE \<le> lex_modes_index p"

definition symbol_stuck :: "yp_parser_t \<Rightarrow> bool" where
  "symbol_stuck p \<longleftrightarrow>
     map_option lex_mode (top_mode p) = Some YP_LEX_SYMBOL \<and> length (source p) \<le> cursor p"

definition inside :: "yp_parser_t \<Rightarrow> bool" where
  "inside p \<longleftrightarrow> cursor p \<le> length (source p)"

definition calls_left :: "yp_parser_t \<Rightarrow> nat" where
  "calls_left p = 2 * (length (source p) - cursor p) + lex_modes_index p"

text \<open>
  The tokens that can end past the buffer of \<open>N\<close> bytes when the call that returns them
  starts with the read position inside it. \<open>sentinel_eof\<close>: the EOF token that Default
  and EmbExpr mode return for the sentinel, from \<open>N\<close> to \<open>N + 1\<close>.
  \<open>sentinel_delimiter\<close>: the opener of a percent literal whose type letter is the last
  byte of the buffer, so that the sentinel is consumed as its delimiter, or the
  STRING_END or REGEXP_END token of a literal whose terminator is NUL, for which the
  sentinel is consumed as the closing delimiter. \<open>percent_opener\<close> lists the token types
  that open a percent literal.
\<close>

definition percent_opener :: "yp_token_type_t \<Rightarrow> bool" where
  "percent_opener t \<longleftrightarrow>
     t \<in> {YP_TOKEN_PERCENT_LOWER_I, YP_TOKEN_PERCENT_UPPER_I, YP_TOKEN_REGEXP_BEGIN,
          YP_TOKEN_STRING_BEGIN, YP_TOKEN_PERCENT_LOWER_W, YP_TOKEN_PERCENT_UPPER_W,
          YP_TOKEN_PERCENT_LOWER_X}"

definition sentinel_eof :: "nat \<Rightarrow> yp_token_type_t \<Rightarrow> nat \<Rightarrow> nat \<Rightarrow> bool" where
  "sentinel_eof N t s e \<longleftrightarrow> t = YP_TOKEN_EOF \<and> s = N \<and> e = N + 1"

definition sentinel_delimiter :: "nat \<Rightarrow> yp_token_type_t \<Rightarrow> nat \<Rightarrow> nat \<Rightarrow> bool" where
  "sentinel_delimiter N t s e \<longleftrightarrow>
     (percent_opener t \<and> s + 2 = N \<and> e = N + 1)
     \<or> ((t = YP_TOKEN_STRING_END \<or> t = YP_TOKEN_REGEXP_END) \<and> s = N \<and> N < e)"

text \<open>The same for the token that a call has left in \<^verbatim>\<open>parser.current\<close> and
  for an entry of a token stream.\<close>

definition delimiter_overrun :: "yp_parser_t \<Rightarrow> bool" where
  "delimiter_overrun q \<longleftrightarrow>
     sentinel_delimiter (length (source q)) (tok_type (current q)) (tok_start (current q))
       (tok_end (current q))"

definition consumes_sentinel :: "nat \<Rightarrow> yp_token_type_t \<times> nat \<times> nat \<times> string \<Rightarrow> bool" where
  "consumes_sentinel N x \<longleftrightarrow>
     sentinel_eof N (fst x) (tk_start x) (tk_end x)
     \<or> sentinel_delimiter N (fst x) (tk_start x) (tk_end x)"

text \<open>\<open>within r\<close>: the result \<open>r\<close> of a lexing function leaves the read position
  inside the buffer, or its token is one of those above.\<close>

definition within :: "(yp_token_type_t \<times> yp_parser_t) option \<Rightarrow> bool" where
  "within r \<longleftrightarrow>
     (case r of
        None \<Rightarrow> True
      | Some (t, q) \<Rightarrow>
          inside q
          \<or> sentinel_eof (length (source q)) t (tok_start (current q)) (cursor q)
          \<or> sentinel_delimiter (length (source q)) t (tok_start (current q)) (cursor q))"

text \<open>
  \<open>unterminated p\<close>: a literal mode other than Symbol is on top, with a terminator other
  than NUL if it is String or Regexp mode, and the read position is at the end of the
  buffer. \<open>end_of_script c\<close>: \<open>c\<close> is one of the three bytes for which Default and
  EmbExpr mode return EOF.
\<close>

definition unterminated :: "yp_parser_t \<Rightarrow> bool" where
  "unterminated p \<longleftrightarrow>
     cursor p = length (source p)
     \<and> (case top_mode p of
          None \<Rightarrow> False
        | Some m \<Rightarrow>
            lex_mode m \<in> {YP_LEX_EMBDOC, YP_LEX_LIST}
            \<or> ((lex_mode m = YP_LEX_REGEXP \<or> lex_mode m = YP_LEX_STRING) \<and> lex_term m \<noteq> NUL))"

definition end_of_script :: "char \<Rightarrow> bool" where
  "end_of_script c \<longleftrightarrow> c = NUL \<or> c = CHR 0x04 \<or> c = CHR 0x1A"

definition code_mode :: "yp_parser_t \<Rightarrow> bool" where
  "code_mode p \<longleftrightarrow>
     (case top_mode p of
        None \<Rightarrow> False
      | Some m \<Rightarrow> lex_mode m = YP_LEX_DEFAULT \<or> lex_mode m = YP_LEX_EMBEXPR)"

section \<open>Content before an interpolation\<close>


definition content_end :: "string \<Rightarrow> yp_parser_t \<Rightarrow> yp_parser_t" where
  "content_end xs p =
     (advance (length xs) p)\<lparr>lineno := lineno p + int (count_list xs (CHR 0x0A))\<rparr>"


section \<open>Basic facts\<close>

lemma cursor_advance [simp]: "cursor (advance n p) = cursor p + n"
  by (simp add: cursor_def advance_def)

lemma source_advance [simp]: "source (advance n p) = source p"
  by (simp add: advance_def)

lemma advance_advance [simp]: "advance n (advance k p) = advance (k + n) p"
  by (simp add: advance_def add.assoc)

lemma advance_0 [simp]: "advance 0 p = p"
  by (simp add: advance_def)

lemma fields_advance [simp]:
  "tok_start (current (advance n p)) = tok_start (current p)"
  "tok_end (current (advance n p)) = tok_end (current p) + n"
  "tok_type (current (advance n p)) = tok_type (current p)"
  "previous (advance n p) = previous p"
  "lineno (advance n p) = lineno p"
  "mem_before (advance n p) = mem_before p"
  "mem_after (advance n p) = mem_after p"
  "lex_modes_current (advance n p) = lex_modes_current p"
  "lex_modes_stack (advance n p) = lex_modes_stack p"
  "lex_modes_index (advance n p) = lex_modes_index p"
  "heap (advance n p) = heap p"
  "heap_brk (advance n p) = heap_brk p"
  "heap_live (advance n p) = heap_live p"
  by (simp_all add: advance_def)

lemma byte_at_advance [simp]: "byte_at (advance n p) i = byte_at p i"
  by (simp add: byte_at_def)

lemma peek_advance: "peek (advance n p) = peek_at p n"
  by (simp add: peek_def peek_at_def)

lemma peek_at_0 [simp]: "peek_at p 0 = peek p"
  by (simp add: peek_def peek_at_def)

lemma peek_at_advance [simp]: "peek_at (advance n p) k = peek_at p (n + k)"
  by (simp add: peek_at_def add.assoc)

lemma byte_at_in_buffer: "i < length (source p) \<Longrightarrow> byte_at p i = source p ! i"
  by (simp add: byte_at_def)

lemma byte_at_sentinel [simp]: "byte_at p (length (source p)) = NUL"
  by (simp add: byte_at_def)

lemma peek_at_end: "cursor p = length (source p) \<Longrightarrow> peek p = NUL"
  by (simp add: peek_def)

lemma peek_not_NUL_in_buffer: "inside p \<Longrightarrow> peek p \<noteq> NUL \<Longrightarrow> cursor p < length (source p)"
  by (rule ccontr) (simp add: inside_def peek_at_end)

lemma byte_at_advance_fun [simp]: "byte_at (advance n p) = byte_at p"
  by (rule ext) simp

lemma fields_start_token [simp]:
  "cursor (start_token p) = cursor p"
  "source (start_token p) = source p"
  "tok_start (current (start_token p)) = cursor p"
  "tok_end (current (start_token p)) = tok_end (current p)"
  "tok_type (current (start_token p)) = tok_type (current p)"
  "previous (start_token p) = previous p"
  "lineno (start_token p) = lineno p"
  "mem_before (start_token p) = mem_before p"
  "mem_after (start_token p) = mem_after p"
  "lex_modes_current (start_token p) = lex_modes_current p"
  "lex_modes_stack (start_token p) = lex_modes_stack p"
  "lex_modes_index (start_token p) = lex_modes_index p"
  "heap (start_token p) = heap p"
  "heap_brk (start_token p) = heap_brk p"
  "heap_live (start_token p) = heap_live p"
  by (simp_all add: start_token_def cursor_def)

lemma byte_at_start_token [simp]: "byte_at (start_token p) = byte_at p"
  by (rule ext) (simp add: byte_at_def)

lemma strncmp_eq_start_token [simp]: "strncmp_eq (start_token p) i v n = strncmp_eq p i v n"
  by (simp add: strncmp_eq_def)

lemma fields_previous_update [simp]:
  "cursor (p\<lparr>previous := x\<rparr>) = cursor p"
  "byte_at (p\<lparr>previous := x\<rparr>) = byte_at p"
  by (simp_all add: cursor_def byte_at_def fun_eq_iff)

lemma strncmp_eq_previous_update [simp]:
  "strncmp_eq (p\<lparr>previous := x\<rparr>) i v n = strncmp_eq p i v n"
  by (simp add: strncmp_eq_def)

lemma top_mode_update [simp]:
  "top_mode (p\<lparr>current := c\<rparr>) = top_mode p"
  "top_mode (p\<lparr>previous := c\<rparr>) = top_mode p"
  "top_mode (p\<lparr>lineno := l\<rparr>) = top_mode p"
  by (simp_all add: top_mode_def deref_def split: mode_ref.splits)

lemma top_mode_advance [simp]: "top_mode (advance n p) = top_mode p"
  by (simp add: advance_def)

lemma top_mode_start_token [simp]: "top_mode (start_token p) = top_mode p"
  by (simp add: start_token_def)


section \<open>Scanning only moves the read position\<close>

lemma scanned_refl [simp]: "scanned p p"
  unfolding scanned_def by (rule exI[of _ 0], rule exI[of _ 0]) simp

lemma scanned_trans:
  assumes "scanned p q" and "scanned q r"
  shows "scanned p r"
proof -
  from assms(1) obtain n k where q: "q = (advance n p)\<lparr>lineno := lineno p + int k\<rparr>"
    unfolding scanned_def by blast
  from assms(2) obtain n' k' where r: "r = (advance n' q)\<lparr>lineno := lineno q + int k'\<rparr>"
    unfolding scanned_def by blast
  have "r = (advance (n + n') p)\<lparr>lineno := lineno p + int (k + k')\<rparr>"
    by (simp add: q r advance_def add.assoc)
  then show ?thesis unfolding scanned_def by blast
qed

lemma scanned_advance0: "scanned p (advance n p)"
  unfolding scanned_def by (rule exI[of _ n], rule exI[of _ 0]) simp

lemma scanned_line_feed0: "scanned p (line_feed p)"
  unfolding scanned_def by (rule exI[of _ 0], rule exI[of _ 1]) (simp add: line_feed_def)

lemma scanned_match0: "scanned p (snd (match p c))"
  by (simp add: match_def scanned_advance0)

lemma scanned_advance [simp]: "scanned p q \<Longrightarrow> scanned p (advance n q)"
  by (erule scanned_trans) (rule scanned_advance0)

lemma scanned_line_feed [simp]: "scanned p q \<Longrightarrow> scanned p (line_feed q)"
  by (erule scanned_trans) (rule scanned_line_feed0)

lemma scanned_match [simp]: "scanned p q \<Longrightarrow> scanned p (snd (match q c))"
  by (erule scanned_trans) (rule scanned_match0)

lemma scanned_fields:
  assumes "scanned p q"
  shows "source q = source p" "cursor p \<le> cursor q" "tok_end (current p) \<le> tok_end (current q)"
    "tok_start (current q) = tok_start (current p)" "tok_type (current q) = tok_type (current p)"
    "previous q = previous p" "mem_before q = mem_before p" "lineno p \<le> lineno q"
    "mem_after q = mem_after p"
    "lex_modes_current q = lex_modes_current p" "lex_modes_stack q = lex_modes_stack p"
    "lex_modes_index q = lex_modes_index p" "heap q = heap p" "heap_brk q = heap_brk p"
    "heap_live q = heap_live p" "byte_at q = byte_at p" "top_mode q = top_mode p"
proof -
  from assms obtain n k where q: "q = (advance n p)\<lparr>lineno := lineno p + int k\<rparr>"
    unfolding scanned_def by blast
  show "source q = source p" "cursor p \<le> cursor q" "tok_end (current p) \<le> tok_end (current q)"
    "tok_start (current q) = tok_start (current p)" "tok_type (current q) = tok_type (current p)"
    "previous q = previous p" "mem_before q = mem_before p" "lineno p \<le> lineno q"
    "mem_after q = mem_after p"
    "lex_modes_current q = lex_modes_current p" "lex_modes_stack q = lex_modes_stack p"
    "lex_modes_index q = lex_modes_index p" "heap q = heap p" "heap_brk q = heap_brk p"
    "heap_live q = heap_live p"
    by (simp_all add: q cursor_def advance_def)
  show "byte_at q = byte_at p"
    by (rule ext) (simp add: q byte_at_def advance_def)
  show "top_mode q = top_mode p"
    by (simp add: q top_mode_def deref_def advance_def split: mode_ref.splits)
qed

lemma scanned_decimal_run0: "scanned p (decimal_run p)"
proof (induction p rule: decimal_run.induct)
  case (1 p)
  show ?case
  proof (cases "is_decimal_number_char (peek p)")
    case True
    have "scanned p (snd (match (advance 1 p) CHR ''_''))" by simp
    from scanned_trans[OF this "1.IH"] True show ?thesis
      by (simp add: decimal_run.simps[of p])
  next
    case False
    then show ?thesis by (auto simp add: decimal_run.simps[of p])
  qed
qed

lemma scanned_decimal_run [simp]: "scanned p q \<Longrightarrow> scanned p (decimal_run q)"
  by (erule scanned_trans) (rule scanned_decimal_run0)

lemma scanned_binary_run0: "scanned p (binary_run p)"
proof (induction p rule: binary_run.induct)
  case (1 p)
  show ?case
  proof (cases "is_binary_number_char (peek p)")
    case True
    have "scanned p (snd (match (advance 1 p) CHR ''_''))" by simp
    from scanned_trans[OF this "1.IH"] True show ?thesis
      by (simp add: binary_run.simps[of p])
  next
    case False
    then show ?thesis by (auto simp add: binary_run.simps[of p])
  qed
qed

lemma scanned_binary_run [simp]: "scanned p q \<Longrightarrow> scanned p (binary_run q)"
  by (erule scanned_trans) (rule scanned_binary_run0)

lemma scanned_octal_run0: "scanned p (octal_run p)"
proof (induction p rule: octal_run.induct)
  case (1 p)
  show ?case
  proof (cases "is_octal_number_char (peek p)")
    case True
    have "scanned p (snd (match (advance 1 p) CHR ''_''))" by simp
    from scanned_trans[OF this "1.IH"] True show ?thesis
      by (simp add: octal_run.simps[of p])
  next
    case False
    then show ?thesis by (auto simp add: octal_run.simps[of p])
  qed
qed

lemma scanned_octal_run [simp]: "scanned p q \<Longrightarrow> scanned p (octal_run q)"
  by (erule scanned_trans) (rule scanned_octal_run0)

lemma scanned_hexadecimal_run0: "scanned p (hexadecimal_run p)"
proof (induction p rule: hexadecimal_run.induct)
  case (1 p)
  show ?case
  proof (cases "is_hexadecimal_number_char (peek p)")
    case True
    have "scanned p (snd (match (advance 1 p) CHR ''_''))" by simp
    from scanned_trans[OF this "1.IH"] True show ?thesis
      by (simp add: hexadecimal_run.simps[of p])
  next
    case False
    then show ?thesis by (auto simp add: hexadecimal_run.simps[of p])
  qed
qed

lemma scanned_hexadecimal_run [simp]: "scanned p q \<Longrightarrow> scanned p (hexadecimal_run q)"
  by (erule scanned_trans) (rule scanned_hexadecimal_run0)

lemma scanned_digit_run0: "scanned p (digit_run p)"
proof (induction p rule: digit_run.induct)
  case (1 p)
  show ?case
  proof (cases "is_decimal_number_char (peek p)")
    case True
    have "scanned p (advance 1 p)" by simp
    from scanned_trans[OF this "1.IH"] True show ?thesis
      by (simp add: digit_run.simps[of p])
  next
    case False
    then show ?thesis by (auto simp add: digit_run.simps[of p])
  qed
qed

lemma scanned_digit_run [simp]: "scanned p q \<Longrightarrow> scanned p (digit_run q)"
  by (erule scanned_trans) (rule scanned_digit_run0)

lemma scanned_identifier_run0: "scanned p (identifier_run p)"
proof (induction p rule: identifier_run.induct)
  case (1 p)
  show ?case
  proof (cases "is_identifier_char (peek p)")
    case True
    have "scanned p (advance 1 p)" by simp
    from scanned_trans[OF this "1.IH"] True show ?thesis
      by (simp add: identifier_run.simps[of p])
  next
    case False
    then show ?thesis by (auto simp add: identifier_run.simps[of p])
  qed
qed

lemma scanned_identifier_run [simp]: "scanned p q \<Longrightarrow> scanned p (identifier_run q)"
  by (erule scanned_trans) (rule scanned_identifier_run0)

lemma scanned_whitespace_run0: "scanned p (whitespace_run p)"
proof (induction p rule: whitespace_run.induct)
  case (1 p)
  show ?case
  proof (cases "is_non_newline_whitespace_char (peek p)")
    case True
    have "scanned p (advance 1 p)" by simp
    from scanned_trans[OF this "1.IH"] True show ?thesis
      by (simp add: whitespace_run.simps[of p])
  next
    case False
    then show ?thesis by (auto simp add: whitespace_run.simps[of p])
  qed
qed

lemma scanned_whitespace_run [simp]: "scanned p q \<Longrightarrow> scanned p (whitespace_run q)"
  by (erule scanned_trans) (rule scanned_whitespace_run0)

lemma scanned_comment_run0: "scanned p (comment_run p)"
proof (induction p rule: comment_run.induct)
  case (1 p)
  show ?case
  proof (cases "peek p \<noteq> CHR 0x0A \<and> peek p \<noteq> NUL")
    case True
    have "scanned p (advance 1 p)" by simp
    from scanned_trans[OF this "1.IH"] True show ?thesis
      by (simp add: comment_run.simps[of p])
  next
    case False
    then show ?thesis by (auto simp add: comment_run.simps[of p])
  qed
qed

lemma scanned_comment_run [simp]: "scanned p q \<Longrightarrow> scanned p (comment_run q)"
  by (erule scanned_trans) (rule scanned_comment_run0)

lemma scanned_regexp_options0: "scanned p (regexp_options p)"
proof (induction p rule: regexp_options.induct)
  case (1 p)
  show ?case
  proof (cases "is_regexp_option (peek p)")
    case True
    have "scanned p (advance 1 p)" by simp
    from scanned_trans[OF this "1.IH"] True show ?thesis
      by (simp add: regexp_options.simps[of p])
  next
    case False
    then show ?thesis by (auto simp add: regexp_options.simps[of p])
  qed
qed

lemma scanned_regexp_options [simp]: "scanned p q \<Longrightarrow> scanned p (regexp_options q)"
  by (erule scanned_trans) (rule scanned_regexp_options0)

lemma scanned_words_sep_run0: "scanned p (words_sep_run p)"
proof (induction p rule: words_sep_run.induct)
  case (1 p)
  let ?p1 = "advance 1 (if peek p = CHR 0x0A then line_feed p else p)"
  have s: "scanned p ?p1" by simp
  show ?case
  proof (cases "is_whitespace_char (peek ?p1)")
    case True
    from scanned_trans[OF s "1.IH"[OF refl True]] True show ?thesis
      by (simp add: words_sep_run.simps[of p] Let_def)
  next
    case False
    with s show ?thesis by (simp add: words_sep_run.simps[of p] Let_def)
  qed
qed

lemma scanned_words_sep_run [simp]: "scanned p q \<Longrightarrow> scanned p (words_sep_run q)"
  by (erule scanned_trans) (rule scanned_words_sep_run0)

lemma scanned_embdoc_line0: "scanned p (embdoc_line p)"
proof (induction p rule: embdoc_line.induct)
  case (1 p)
  show ?case
  proof (cases "cursor p < length (source p) \<and> peek p \<noteq> CHR 0x0A")
    case True
    have "scanned p (advance 1 p)" by simp
    from scanned_trans[OF this "1.IH"] True show ?thesis
      by (simp add: embdoc_line.simps[of p])
  next
    case False
    then show ?thesis by (auto simp add: embdoc_line.simps[of p])
  qed
qed

lemma scanned_embdoc_line [simp]: "scanned p q \<Longrightarrow> scanned p (embdoc_line q)"
  by (erule scanned_trans) (rule scanned_embdoc_line0)

lemma scanned_match_either [simp]: "scanned p q \<Longrightarrow> scanned p (snd (match_either q a b))"
  by (simp add: match_either_def case_prod_beta)

lemma scanned_match_select [simp]: "scanned p q \<Longrightarrow> scanned p (snd (match_select q c a b))"
  by (simp add: match_select_def case_prod_beta)

lemma scanned_lex_optional_float_suffix [simp]:
  "scanned p q \<Longrightarrow> scanned p (snd (lex_optional_float_suffix q))"
  by (simp add: lex_optional_float_suffix_def Let_def case_prod_beta)

lemma scanned_trailing_underscore_check [simp]:
  "scanned p (snd r) \<Longrightarrow> scanned p (snd (trailing_underscore_check r))"
  by (simp add: trailing_underscore_check_def case_prod_beta)

lemma scanned_lex_numeric_prefix [simp]:
  "scanned p q \<Longrightarrow> scanned p (snd (lex_numeric_prefix q))"
  by (simp add: lex_numeric_prefix_def Let_def)

lemma scanned_lex_numeric [simp]: "scanned p q \<Longrightarrow> scanned p (snd (lex_numeric q))"
  by (simp add: lex_numeric_def Let_def case_prod_beta)

lemma scanned_lex_global_variable [simp]:
  "scanned p q \<Longrightarrow> scanned p (snd (lex_global_variable q))"
  by (simp add: lex_global_variable_def Let_def)

lemma scanned_lex_identifier [simp]: "scanned p q \<Longrightarrow> scanned p (snd (lex_identifier q))"
  by (simp add: lex_identifier_def Let_def case_prod_beta split: option.splits)


section \<open>The shape of a lexing step\<close>

lemma restacked_refl [simp]: "restacked q q"
  by (simp add: restacked_def)

lemma moved_scanned: "scanned p q \<Longrightarrow> moved p q"
  unfolding moved_def using restacked_refl scanned_refl by blast

lemma moved_push: "scanned p q \<Longrightarrow> lex_mode m \<noteq> YP_LEX_OUT_OF_RANGE \<Longrightarrow> moved p (push_lex_mode q m)"
  unfolding moved_def restacked_def using scanned_refl by blast

lemma moved_pop: "scanned p q \<Longrightarrow> pop_lex_mode q = Some q' \<Longrightarrow> moved p q'"
  unfolding moved_def restacked_def using scanned_refl by blast

lemma moved_then_scanned: "moved p q \<Longrightarrow> scanned q r \<Longrightarrow> moved p r"
  unfolding moved_def using scanned_trans by blast

lemma scanned_then_moved: "scanned p q \<Longrightarrow> moved q r \<Longrightarrow> moved p r"
  unfolding moved_def using scanned_trans by blast

lemma pop_undefined_cong:
  "lex_modes_index q = lex_modes_index p \<Longrightarrow> lex_modes_current q = lex_modes_current p \<Longrightarrow>
   heap_live q = heap_live p \<Longrightarrow> (pop_lex_mode q = None) = (pop_lex_mode p = None)"
  by (auto simp: pop_lex_mode_def deref_def split: mode_ref.splits if_splits option.splits)

lemma pop_undefined_scanned: "scanned p q \<Longrightarrow> (pop_lex_mode q = None) = (pop_lex_mode p = None)"
  by (rule pop_undefined_cong) (simp_all add: scanned_fields)

lemma pop_undefined_start_token [simp]:
  "(pop_lex_mode (start_token p) = None) = (pop_lex_mode p = None)"
  by (rule pop_undefined_cong) simp_all

lemma stepped_Some: "scanned p (snd r) \<Longrightarrow> stepped p (Some r)"
  unfolding stepped_def by (cases r) (simp add: moved_scanned)

lemma stepped_Some_pair [simp]: "scanned p q \<Longrightarrow> stepped p (Some (t, q))"
  by (rule stepped_Some) simp

lemma stepped_push [simp]:
  "scanned p q \<Longrightarrow> lex_mode m \<noteq> YP_LEX_OUT_OF_RANGE \<Longrightarrow> stepped p (Some (t, push_lex_mode q m))"
  unfolding stepped_def by (simp add: moved_push)

lemma stepped_pop [simp]:
  "stepped p (map_option (Pair t) (pop_lex_mode q))" if "scanned p q"
proof (cases "pop_lex_mode q")
  case None
  then have "pop_lex_mode p = None"
    using pop_undefined_scanned[OF that] by simp
  with None show ?thesis by (simp add: stepped_def)
next
  case (Some q')
  with that show ?thesis by (simp add: stepped_def moved_pop)
qed

lemma stepped_match_select [simp]:
  "scanned p q \<Longrightarrow> stepped p (Some (match_select q c a b))"
  by (rule stepped_Some) simp

lemma stepped_lex_numeric [simp]: "scanned p q \<Longrightarrow> stepped p (Some (lex_numeric q))"
  by (rule stepped_Some) simp

lemma stepped_lex_global_variable [simp]:
  "scanned p q \<Longrightarrow> stepped p (Some (lex_global_variable q))"
  by (rule stepped_Some) simp

lemma stepped_lex_identifier [simp]: "scanned p q \<Longrightarrow> stepped p (Some (lex_identifier q))"
  by (rule stepped_Some) simp

lemma fields_mk_lex_mode [simp]:
  "lex_mode (mk_lex_mode t c i) = t" "lex_term (mk_lex_mode t c i) = c"
  "lex_interp (mk_lex_mode t c i) = i" "lex_prev (mk_lex_mode t c i) = Null"
  by (simp_all add: mk_lex_mode_def)

lemma stepped_percent_literal [simp]:
  "scanned p q \<Longrightarrow> tag \<noteq> YP_LEX_OUT_OF_RANGE \<Longrightarrow>
   stepped p (Some (percent_literal q tag i token))"
  by (simp add: percent_literal_def Let_def)

lemma stepped_match_then:
  assumes "scanned p q"
    and "\<And>q'. scanned p q' \<Longrightarrow> stepped p (yes q')"
    and "\<And>q'. scanned p q' \<Longrightarrow> stepped p (no q')"
  shows "stepped p (match_then q c yes no)"
  using assms by (simp add: match_then_def match_def)

lemma stepped_guarded_match_then:
  assumes "scanned p q"
    and "\<And>q'. scanned p q' \<Longrightarrow> stepped p (yes q')"
    and "\<And>q'. scanned p q' \<Longrightarrow> stepped p (no q')"
  shows "stepped p (guarded_match_then g q c yes no)"
  using assms by (simp add: guarded_match_then_def stepped_match_then)

lemma stepped_if: "stepped p a \<Longrightarrow> stepped p b \<Longrightarrow> stepped p (if c then a else b)"
  by simp

lemma stepped_lex_default:
  "stepped (advance 1 (start_token (whitespace_run p0))) (lex_default m p0)"
  unfolding lex_default_def Let_def case_prod_beta
  by (intro stepped_if stepped_match_then stepped_guarded_match_then)
     (simp_all del: advance_advance)

lemma fields_unrecoverable [simp]:
  "unterminated_embdoc default_error_handler = unrecoverable"
  "unterminated_list default_error_handler = unrecoverable"
  "unterminated_regexp default_error_handler = unrecoverable"
  "unterminated_string default_error_handler = unrecoverable"
  by (simp_all add: default_error_handler_def)

lemma stepped_unrecoverable [simp]: "scanned p q \<Longrightarrow> stepped p (Some (unrecoverable q))"
  by (simp add: unrecoverable_def)

lemma stepped_lex_embdoc: "stepped (start_token p) (lex_embdoc default_error_handler p)"
  unfolding lex_embdoc_def Let_def
  by (intro stepped_if) simp_all

lemma stepped_if_cond:
  "(c \<Longrightarrow> stepped p a) \<Longrightarrow> (\<not> c \<Longrightarrow> stepped p b) \<Longrightarrow> stepped p (if c then a else b)"
  by simp

lemma stepped_list_word_gen:
  "eh = default_error_handler \<Longrightarrow> scanned p q \<Longrightarrow> stepped p (list_word eh m q)"
proof (induction eh m q rule: list_word.induct)
  case (1 eh m q)
  have rec: "stepped p (list_word eh m (advance 1 q))"
    if "cursor q < length (source q)" "\<not> is_whitespace_char (peek q)" "peek q \<noteq> lex_term m"
    using "1.IH"[OF that "1.prems"(1)] "1.prems"(2) by simp
  show ?case
    by (subst list_word.simps, intro stepped_if_cond)
       (use rec "1.prems" in \<open>simp_all del: advance_advance\<close>)
qed

lemma stepped_list_word:
  "scanned p q \<Longrightarrow> stepped p (list_word default_error_handler m q)"
  by (rule stepped_list_word_gen) simp_all

lemma stepped_lex_list: "stepped (start_token p) (lex_list default_error_handler m p)"
  unfolding lex_list_def
  by (intro stepped_if stepped_list_word) simp_all

lemma stepped_regexp_content_gen:
  "eh = default_error_handler \<Longrightarrow> scanned p q \<Longrightarrow> stepped p (regexp_content eh m q)"
proof (induction eh m q rule: regexp_content.induct)
  case (1 eh m q)
  let ?p1 = "if peek q = CHR 0x0A then line_feed q else q"
  have s1: "scanned p ?p1"
    using "1.prems" by simp
  have rec: "stepped p (regexp_content eh m (advance 1 ?p1))"
    if "cursor q < length (source q)" "peek q \<noteq> lex_term m"
       "\<not> (peek ?p1 = CHR ''#'' \<and> peek_at ?p1 1 = CHR ''{'')"
    using "1.IH"[OF that(1,2) refl that(3) "1.prems"(1)] s1 by simp
  show ?case
    by (subst regexp_content.simps, unfold Let_def, intro stepped_if_cond)
       (use rec s1 "1.prems" in \<open>simp_all del: advance_advance\<close>)
qed

lemma stepped_regexp_content:
  "scanned p q \<Longrightarrow> stepped p (regexp_content default_error_handler m q)"
  by (rule stepped_regexp_content_gen) simp_all

lemma stepped_lex_regexp: "stepped (start_token p) (lex_regexp default_error_handler m p)"
  unfolding lex_regexp_def
  by (intro stepped_match_then stepped_regexp_content) simp_all

lemma stepped_string_content_gen:
  "eh = default_error_handler \<Longrightarrow> scanned p q \<Longrightarrow> stepped p (string_content eh m q)"
proof (induction eh m q rule: string_content.induct)
  case (1 eh m q)
  let ?p1 = "if peek q = CHR 0x0A then line_feed q else q"
  have s1: "scanned p ?p1"
    using "1.prems" by simp
  have rec: "stepped p (string_content eh m (advance 1 ?p1))"
    if "cursor q < length (source q)" "peek q \<noteq> lex_term m"
       "\<not> (lex_interp m \<and> peek ?p1 = CHR ''#'' \<and> peek_at ?p1 1 = CHR ''{'')"
    using "1.IH"[OF that(1,2) refl that(3) "1.prems"(1)] s1 by simp
  show ?case
    by (subst string_content.simps, unfold Let_def, intro stepped_if_cond)
       (use rec s1 "1.prems" in \<open>simp_all del: advance_advance\<close>)
qed

lemma stepped_string_content:
  "scanned p q \<Longrightarrow> stepped p (string_content default_error_handler m q)"
  by (rule stepped_string_content_gen) simp_all

lemma stepped_lex_string: "stepped (start_token p) (lex_string default_error_handler m p)"
  unfolding lex_string_def
  by (intro stepped_match_then stepped_string_content) simp_all

lemma stepped_lex_symbol: "stepped (start_token p) (lex_symbol p)"
proof -
  let ?p1 = "advance 1 (start_token p)"
  have "stepped (start_token p)
          (case pop_lex_mode ?p1 of None \<Rightarrow> None
           | Some p2 \<Rightarrow> Some (match_select (snd (lex_identifier p2)) CHR ''=''
                                 YP_TOKEN_IDENTIFIER (fst (lex_identifier p2))))"
  proof (cases "pop_lex_mode ?p1")
    case None
    then have "pop_lex_mode (start_token p) = None"
      using pop_undefined_scanned[of "start_token p" ?p1] by simp
    with None show ?thesis by (simp add: stepped_def)
  next
    case (Some p2)
    have "moved (start_token p) p2"
      using Some by (intro moved_pop[of _ ?p1]) simp_all
    moreover have "scanned p2 (snd (match_select (snd (lex_identifier p2)) CHR ''=''
                                 YP_TOKEN_IDENTIFIER (fst (lex_identifier p2))))"
      by simp
    ultimately have "moved (start_token p) (snd (match_select (snd (lex_identifier p2)) CHR ''=''
                                 YP_TOKEN_IDENTIFIER (fst (lex_identifier p2))))"
      by (rule moved_then_scanned)
    then show ?thesis
      using Some by (simp add: stepped_def case_prod_beta)
  qed
  then show ?thesis
    unfolding lex_symbol_def Let_def case_prod_beta
    by (intro stepped_if) simp_all
qed


section \<open>Token offsets along the stream\<close>

lemma restacked_fields:
  assumes "restacked q p'"
  shows "source p' = source q" "current p' = current q" "previous p' = previous q"
    "lineno p' = lineno q" "mem_before p' = mem_before q" "cursor p' = cursor q"
    "mem_after p' = mem_after q"
  using assms unfolding restacked_def push_lex_mode_def pop_lex_mode_def cursor_def
  by (auto simp: Let_def split: if_splits mode_ref.splits option.splits)

lemma moved_fields:
  assumes "moved p p'"
  shows "source p' = source p" "cursor p \<le> cursor p'"
    "tok_start (current p') = tok_start (current p)" "previous p' = previous p"
    "mem_before p' = mem_before p" "lineno p \<le> lineno p'" "mem_after p' = mem_after p"
proof -
  from assms obtain a b where ab: "scanned p a" "restacked a b" "scanned b p'"
    unfolding moved_def by blast
  note f = scanned_fields[OF ab(1)] restacked_fields[OF ab(2)] scanned_fields[OF ab(3)]
  show "mem_after p' = mem_after p" using f by simp
  show "source p' = source p" using f by simp
  show "cursor p \<le> cursor p'" using f by simp
  show "tok_start (current p') = tok_start (current p)" using f by simp
  show "previous p' = previous p" using f by simp
  show "mem_before p' = mem_before p" using f by simp
  show "lineno p \<le> lineno p'" using f by simp
qed

lemma stepped_from_earlier: "scanned p q \<Longrightarrow> stepped q r \<Longrightarrow> stepped p r"
  unfolding stepped_def
  by (auto split: option.splits intro: scanned_then_moved simp: pop_undefined_scanned)

lemma lexed_stepped: "scanned p s \<Longrightarrow> stepped (start_token s) r \<Longrightarrow> lexed p r"
  unfolding stepped_def lexed_def by (auto split: option.splits simp: pop_undefined_scanned)

lemma lexed_lex_token_type: "lexed p (lex_token_type default_error_handler p)"
proof (cases "deref p (lex_modes_current p)")
  case None
  then show ?thesis by (simp add: lex_token_type_def lexed_def top_mode_def)
next
  case (Some m)
  have d: "lexed p (lex_default m p)"
    by (rule lexed_stepped[of _ "whitespace_run p"], simp)
       (rule stepped_from_earlier[OF _ stepped_lex_default], simp)
  show ?thesis
    using Some d
    by (cases "lex_mode m")
       (simp_all add: lex_token_type_def lexed_stepped[OF scanned_refl]
          stepped_lex_embdoc stepped_lex_list stepped_lex_regexp stepped_lex_string
          stepped_lex_symbol, simp add: lexed_def)
qed

lemma lexed_positions:
  assumes "lexed p (Some (t, p'))"
  shows "source p' = source p"
    and "(tok_start (current p') = tok_start (current p) \<and> tok_end (current p') = tok_end (current p))
         \<or> (tok_end (current p) \<le> tok_start (current p') \<and> tok_start (current p') \<le> tok_end (current p'))"
proof -
  from assms consider "p' = p" | s where "scanned p s" "moved (start_token s) p'"
    unfolding lexed_def by auto
  then have "source p' = source p \<and>
     ((tok_start (current p') = tok_start (current p) \<and> tok_end (current p') = tok_end (current p))
         \<or> (tok_end (current p) \<le> tok_start (current p') \<and> tok_start (current p') \<le> tok_end (current p')))"
  proof cases
    case 1
    then show ?thesis by simp
  next
    case 2
    from scanned_fields[OF 2(1)] moved_fields[OF 2(2)]
    show ?thesis by (simp add: cursor_def)
  qed
  then show "source p' = source p"
    and "(tok_start (current p') = tok_start (current p) \<and> tok_end (current p') = tok_end (current p))
         \<or> (tok_end (current p) \<le> tok_start (current p') \<and> tok_start (current p') \<le> tok_end (current p'))"
    by simp_all
qed

lemma yp_lex_token_positions:
  assumes "yp_lex_token default_error_handler p = Some p'"
  shows "source p' = source p"
    and "(tok_start (current p') = tok_start (current p) \<and> tok_end (current p') = tok_end (current p))
         \<or> (tok_end (current p) \<le> tok_start (current p') \<and> tok_start (current p') \<le> tok_end (current p'))"
proof -
  let ?pp = "p\<lparr>previous := current p\<rparr>"
  from assms obtain t p1 where r: "lex_token_type default_error_handler ?pp = Some (t, p1)"
    and p': "p' = p1\<lparr>current := (current p1)\<lparr>tok_type := t\<rparr>\<rparr>"
    by (auto simp: yp_lex_token_def split: option.splits)
  from lexed_lex_token_type[of ?pp] r have "lexed ?pp (Some (t, p1))" by simp
  from lexed_positions[OF this] show "source p' = source p"
    and "(tok_start (current p') = tok_start (current p) \<and> tok_end (current p') = tok_end (current p))
         \<or> (tok_end (current p) \<le> tok_start (current p') \<and> tok_start (current p') \<le> tok_end (current p'))"
    by (simp_all add: p')
qed

lemma tk_simps [simp]: "tk_start (t, s, e, l) = s" "tk_end (t, s, e, l) = e"
  by (simp_all add: tk_start_def tk_end_def)

lemma token_stream_ordered:
  "token_stream default_error_handler n p = Some ts \<Longrightarrow>
   tok_start (current p) \<le> tok_end (current p) \<Longrightarrow>
   list_all (\<lambda>x. tk_start x \<le> tk_end x \<and> tok_start (current p) \<le> tk_start x
                \<and> tok_end (current p) \<le> tk_end x) ts
   \<and> sorted (map tk_start ts) \<and> sorted (map tk_end ts)"
proof (induction n arbitrary: p ts)
  case 0
  then show ?case by simp
next
  case (Suc n)
  from Suc.prems(1) obtain p1 ts1 where
    c: "yp_lex_token default_error_handler p = Some p1"
    and t1: "token_stream default_error_handler n p1 = Some ts1"
    and ts: "ts = (tok_type (current p1), tok_start (current p1), tok_end (current p1), lexeme p1) # ts1"
    by (auto split: option.splits)
  from yp_lex_token_positions(2)[OF c] Suc.prems(2)
  have o: "tok_start (current p1) \<le> tok_end (current p1)"
    "tok_start (current p) \<le> tok_start (current p1)" "tok_end (current p) \<le> tok_end (current p1)"
    by auto
  from Suc.IH[OF t1 o(1)] have ih:
    "list_all (\<lambda>x. tk_start x \<le> tk_end x \<and> tok_start (current p1) \<le> tk_start x
                \<and> tok_end (current p1) \<le> tk_end x) ts1"
    "sorted (map tk_start ts1)" "sorted (map tk_end ts1)"
    by simp_all
  from ih(1) o have "list_all (\<lambda>x. tk_start x \<le> tk_end x \<and> tok_start (current p) \<le> tk_start x
                \<and> tok_end (current p) \<le> tk_end x) ts1"
    by (auto simp: list_all_iff)
  moreover from ih(1) have "\<forall>x \<in> set ts1. tok_start (current p1) \<le> tk_start x \<and> tok_end (current p1) \<le> tk_end x"
    by (auto simp: list_all_iff)
  ultimately show ?case
    using o ih(2,3) by (simp add: ts)
qed

section \<open>At the end of the buffer\<close>

lemma not_whitespace_NUL [simp]:
  "\<not> is_non_newline_whitespace_char NUL" "\<not> is_whitespace_char NUL"
  by (simp_all add: is_non_newline_whitespace_char_def is_whitespace_char_def NUL_def)

lemma whitespace_run_stop: "\<not> is_non_newline_whitespace_char (peek p) \<Longrightarrow> whitespace_run p = p"
  by (simp add: whitespace_run.simps[of p])

lemma peek_update [simp]:
  "peek (p\<lparr>previous := x\<rparr>) = peek p" "peek (start_token p) = peek p"
  by (simp_all add: peek_def)

lemma lex_default_at_end:
  assumes "cursor p = length (source p)"
  shows "lex_default m p = Some (YP_TOKEN_EOF, advance 1 (start_token p))"
proof -
  have pk: "peek p = NUL" using assms by (rule peek_at_end)
  then have "whitespace_run p = p" by (simp add: whitespace_run_stop)
  then show ?thesis using pk by (simp add: lex_default_def Let_def)
qed

lemma lex_token_type_of_mode:
  "top_mode p = Some m \<Longrightarrow>
   lex_token_type eh p =
     (case lex_mode m of
        YP_LEX_DEFAULT \<Rightarrow> lex_default m p
      | YP_LEX_EMBEXPR \<Rightarrow> lex_default m p
      | YP_LEX_EMBDOC \<Rightarrow> lex_embdoc eh p
      | YP_LEX_LIST \<Rightarrow> lex_list eh m p
      | YP_LEX_REGEXP \<Rightarrow> lex_regexp eh m p
      | YP_LEX_STRING \<Rightarrow> lex_string eh m p
      | YP_LEX_SYMBOL \<Rightarrow> lex_symbol p
      | YP_LEX_OUT_OF_RANGE \<Rightarrow> Some (YP_TOKEN_INVALID, p))"
  by (simp add: lex_token_type_def top_mode_def)

section \<open>Interpolation in the literal modes\<close>


text \<open>The loop of List mode has no interpolation branch: it never returns EMBEXPR_BEGIN,
  also for the modes that \<^verbatim>\<open>%W\<close> and \<^verbatim>\<open>%I\<close> push with
  the flag set.\<close>

lemma list_word_no_embexpr:
  "eh = default_error_handler \<Longrightarrow>
   list_word eh m q = Some (t, p') \<Longrightarrow> t \<noteq> YP_TOKEN_EMBEXPR_BEGIN"
proof (induction eh m q rule: list_word.induct)
  case (1 eh m q)
  show ?case
  proof (cases "cursor q < length (source q) \<and> \<not> is_whitespace_char (peek q) \<and> peek q \<noteq> lex_term m")
    case True
    then have "list_word eh m q = list_word eh m (advance 1 q)"
      by (subst list_word.simps) simp
    with "1.prems" have r: "list_word eh m (advance 1 q) = Some (t, p')" by simp
    show ?thesis
      using True by (intro "1.IH"[OF _ _ _ "1.prems"(1) r]) simp_all
  next
    case False
    then show ?thesis
      using "1.prems"
      by (subst (asm) list_word.simps) (auto simp: unrecoverable_def split: if_splits)
  qed
qed


lemma list_mode_never_interpolates:
  assumes "top_mode p = Some m" "lex_mode m = YP_LEX_LIST"
    and "lex_token_type default_error_handler p = Some (t, p')"
  shows "t \<noteq> YP_TOKEN_EMBEXPR_BEGIN"
proof -
  from assms have r: "lex_list default_error_handler m p = Some (t, p')"
    by (simp add: lex_token_type_of_mode)
  show ?thesis
  proof (cases "is_whitespace_char (peek p)")
    case True
    with r show ?thesis by (auto simp: lex_list_def)
  next
    case False
    with r have "list_word default_error_handler m (start_token p) = Some (t, p')"
      by (simp add: lex_list_def)
    from list_word_no_embexpr[OF refl this] show ?thesis .
  qed
qed

lemma not_NUL_chars [simp]: "CHR ''#'' \<noteq> NUL" "NUL \<noteq> CHR ''#''"
  by (simp_all add: NUL_def)


section \<open>The stack within the inline array\<close>

lemma inline_stack_top:
  "inline_stack p \<Longrightarrow> top_mode p = Some (lex_modes_stack p ! lex_modes_index p)"
  by (simp add: inline_stack_def top_mode_def deref_def)

lemma inline_stack_top_mode:
  assumes "inline_stack p" "top_mode p = Some m"
  shows "lex_mode m \<noteq> YP_LEX_OUT_OF_RANGE"
    and "lex_modes_index p = 0 \<Longrightarrow> lex_mode m = YP_LEX_DEFAULT"
proof -
  from assms have m: "m = lex_modes_stack p ! lex_modes_index p"
    by (simp add: inline_stack_top)
  from assms(1) have "lex_modes_index p < length (lex_modes_stack p)"
    by (simp add: inline_stack_def)
  then have "m \<in> set (lex_modes_stack p)" unfolding m by (rule nth_mem)
  with assms(1) show "lex_mode m \<noteq> YP_LEX_OUT_OF_RANGE"
    by (auto simp: inline_stack_def list_all_iff)
  show "lex_mode m = YP_LEX_DEFAULT" if "lex_modes_index p = 0"
    using assms(1) that by (simp add: m inline_stack_def)
qed

lemma inline_stack_cong:
  "lex_modes_index q = lex_modes_index p \<Longrightarrow> lex_modes_current q = lex_modes_current p \<Longrightarrow>
   lex_modes_stack q = lex_modes_stack p \<Longrightarrow> inline_stack q = inline_stack p"
  by (simp add: inline_stack_def)

lemma inline_stack_scanned: "scanned p q \<Longrightarrow> inline_stack q = inline_stack p"
  by (rule inline_stack_cong) (simp_all add: scanned_fields)

lemma inline_stack_start_token [simp]: "inline_stack (start_token p) = inline_stack p"
  by (rule inline_stack_cong) simp_all

lemma inline_stack_previous_update [simp]: "inline_stack (p\<lparr>previous := x\<rparr>) = inline_stack p"
  by (rule inline_stack_cong) simp_all

lemma inline_stack_current_update [simp]: "inline_stack (p\<lparr>current := x\<rparr>) = inline_stack p"
  by (rule inline_stack_cong) simp_all

lemma inline_stack_push:
  assumes "inline_stack q" "lex_mode m \<noteq> YP_LEX_OUT_OF_RANGE"
  shows "inline_stack (push_lex_mode q m) \<or> spilled (push_lex_mode q m)"
    and "lex_modes_index (push_lex_mode q m) = lex_modes_index q + 1"
proof -
  show "lex_modes_index (push_lex_mode q m) = lex_modes_index q + 1"
    by (simp add: push_lex_mode_def Let_def)
  show "inline_stack (push_lex_mode q m) \<or> spilled (push_lex_mode q m)"
  proof (cases "lex_modes_index q + 1 > YP_LEX_STACK_SIZE - 1")
    case True
    then show ?thesis by (simp add: push_lex_mode_def Let_def spilled_def YP_LEX_STACK_SIZE_def)
  next
    case False
    let ?xs = "(lex_modes_stack q)[lex_modes_index q + 1 := m\<lparr>lex_prev := lex_modes_current q\<rparr>]"
    have "set ?xs \<subseteq> insert (m\<lparr>lex_prev := lex_modes_current q\<rparr>) (set (lex_modes_stack q))"
      by (rule set_update_subset_insert)
    with assms have "list_all (\<lambda>m. lex_mode m \<noteq> YP_LEX_OUT_OF_RANGE) ?xs"
      by (auto simp: inline_stack_def list_all_iff)
    with False assms(1) have "inline_stack (push_lex_mode q m)"
      by (simp add: push_lex_mode_def Let_def inline_stack_def YP_LEX_STACK_SIZE_def)
    then show ?thesis ..
  qed
qed

lemma inline_stack_pop:
  assumes "inline_stack q"
  shows "\<exists>q'. pop_lex_mode q = Some q' \<and> inline_stack q'
           \<and> lex_modes_index q' = lex_modes_index q - 1"
proof (cases "lex_modes_index q = 0")
  case True
  let ?xs = "(lex_modes_stack q)[0 := (lex_modes_stack q ! 0)\<lparr>lex_mode := YP_LEX_DEFAULT\<rparr>]"
  have "set ?xs \<subseteq> insert ((lex_modes_stack q ! 0)\<lparr>lex_mode := YP_LEX_DEFAULT\<rparr>) (set (lex_modes_stack q))"
    by (rule set_update_subset_insert)
  with assms have "list_all (\<lambda>m. lex_mode m \<noteq> YP_LEX_OUT_OF_RANGE) ?xs"
    by (auto simp: inline_stack_def list_all_iff)
  with True assms show ?thesis
    by (simp add: pop_lex_mode_def inline_stack_def YP_LEX_STACK_SIZE_def)
next
  case False
  with assms show ?thesis
    by (auto simp: pop_lex_mode_def inline_stack_def YP_LEX_STACK_SIZE_def)
qed

lemma inline_stack_restacked:
  assumes "inline_stack q" "restacked q q'"
  shows "inline_stack q' \<or> spilled q'" and "lex_modes_index q' \<le> lex_modes_index q + 1"
proof -
  from assms(2) consider "q' = q"
    | m where "lex_mode m \<noteq> YP_LEX_OUT_OF_RANGE" "q' = push_lex_mode q m"
    | "pop_lex_mode q = Some q'"
    unfolding restacked_def by blast
  then have "(inline_stack q' \<or> spilled q') \<and> lex_modes_index q' \<le> lex_modes_index q + 1"
  proof cases
    case 1
    with assms(1) show ?thesis by simp
  next
    case 2
    with inline_stack_push[OF assms(1) 2(1)] show ?thesis by simp
  next
    case 3
    with inline_stack_pop[OF assms(1)] show ?thesis by auto
  qed
  then show "inline_stack q' \<or> spilled q'" and "lex_modes_index q' \<le> lex_modes_index q + 1"
    by simp_all
qed

lemma spilled_scanned: "scanned p q \<Longrightarrow> spilled q = spilled p"
  by (simp add: spilled_def scanned_fields)

lemma inline_stack_moved:
  assumes "inline_stack p" "moved p p'"
  shows "inline_stack p' \<or> spilled p'" and "lex_modes_index p' \<le> lex_modes_index p + 1"
proof -
  from assms(2) obtain a b where ab: "scanned p a" "restacked a b" "scanned b p'"
    unfolding moved_def by blast
  from assms(1) ab(1) have "inline_stack a" by (simp add: inline_stack_scanned)
  from inline_stack_restacked[OF this ab(2)] scanned_fields[OF ab(1)] scanned_fields[OF ab(3)]
    inline_stack_scanned[OF ab(3)] spilled_scanned[OF ab(3)]
  show "inline_stack p' \<or> spilled p'" and "lex_modes_index p' \<le> lex_modes_index p + 1"
    by simp_all
qed

lemma lex_token_type_defined:
  assumes "inline_stack p"
  shows "lex_token_type default_error_handler p \<noteq> None"
proof
  assume "lex_token_type default_error_handler p = None"
  with lexed_lex_token_type[of p] have "top_mode p = None \<or> pop_lex_mode p = None"
    by (simp add: lexed_def)
  with inline_stack_top[OF assms] inline_stack_pop[OF assms] show False by auto
qed
text \<open>Within the inline array a push stores the mode, linked to the mode below it.\<close>

lemma push_within_inline_capacity:
  assumes "inline_stack p" "lex_modes_index p + 1 < YP_LEX_STACK_SIZE"
  shows "top_mode (push_lex_mode p m) = Some (m\<lparr>lex_prev := lex_modes_current p\<rparr>)"
  using assms
  by (simp add: top_mode_def push_lex_mode_def deref_def Let_def inline_stack_def
      YP_LEX_STACK_SIZE_def)


section \<open>Every call moves on\<close>

lemma cursor_pop: "pop_lex_mode q = Some q' \<Longrightarrow> cursor q' = cursor q"
  by (rule restacked_fields(6)) (simp add: restacked_def)

lemma moved_cursor: "moved p p' \<Longrightarrow> cursor p \<le> cursor p'"
  by (rule moved_fields)

lemma stepped_cursor: "stepped p (Some (t, p')) \<Longrightarrow> cursor p \<le> cursor p'"
  by (simp add: stepped_def moved_fields)

lemma lex_default_progress:
  assumes "lex_default m p = Some (t, p')"
  shows "cursor p < cursor p'"
proof -
  from stepped_lex_default[of p m] assms
  have "stepped (advance 1 (start_token (whitespace_run p))) (Some (t, p'))"
    by simp
  then have "cursor (advance 1 (start_token (whitespace_run p))) \<le> cursor p'"
    by (rule stepped_cursor)
  moreover have "cursor p \<le> cursor (whitespace_run p)"
    by (rule scanned_fields) simp
  ultimately show ?thesis by simp
qed

lemma embdoc_line_progress:
  assumes "cursor q < length (source q)"
  shows "cursor q < cursor (embdoc_line q)"
proof -
  have "cursor (advance 1 q) \<le> cursor (embdoc_line (advance 1 q))"
    by (rule scanned_fields) simp
  with assms show ?thesis by (simp add: embdoc_line.simps[of q])
qed

lemma lex_embdoc_progress:
  assumes "lex_embdoc default_error_handler p = Some (t, p')" "t \<noteq> YP_TOKEN_EOF"
    and "cursor p < length (source p)"
  shows "cursor p < cursor p'"
proof (cases "strncmp_eq p (cursor p) (''=end'' @ [CHR 0x0A]) 5")
  case True
  with assms(1) obtain q where "pop_lex_mode (advance 5 (start_token p)) = Some q" "p' = q"
    by (auto simp: lex_embdoc_def Let_def)
  with cursor_pop[OF this(1)] show ?thesis by simp
next
  case False
  from embdoc_line_progress[of "start_token p"] assms(3)
  have "cursor p < cursor (embdoc_line (start_token p))" by simp
  with False assms(1,2) show ?thesis
    by (auto simp: lex_embdoc_def Let_def unrecoverable_def line_feed_def cursor_def split: if_splits)
qed

lemma list_word_progress:
  "eh = default_error_handler \<Longrightarrow> list_word eh m q = Some (t, p') \<Longrightarrow> t \<noteq> YP_TOKEN_EOF \<Longrightarrow>
   c0 \<le> cursor q \<Longrightarrow>
   c0 < cursor q \<or> (\<not> is_whitespace_char (peek q) \<and> tok_start (current q) = cursor q) \<Longrightarrow>
   c0 < cursor p'"
proof (induction eh m q rule: list_word.induct)
  case (1 eh m q)
  show ?case
  proof (cases "cursor q < length (source q) \<and> \<not> is_whitespace_char (peek q) \<and> peek q \<noteq> lex_term m")
    case True
    then have "list_word eh m q = list_word eh m (advance 1 q)"
      by (simp add: list_word.simps[of eh m q])
    with "1.prems" have r: "list_word eh m (advance 1 q) = Some (t, p')" by simp
    show ?thesis
      using True "1.prems"(4)
      by (intro "1.IH"[OF _ _ _ "1.prems"(1) r "1.prems"(3)]) simp_all
  next
    case False
    with "1.prems" show ?thesis
      by (subst (asm) list_word.simps)
         (auto simp: unrecoverable_def split: if_splits dest!: cursor_pop)
  qed
qed

lemma words_sep_run_progress: "cursor q < cursor (words_sep_run q)"
proof -
  let ?p1 = "advance 1 (if peek q = CHR 0x0A then line_feed q else q)"
  have c: "cursor ?p1 = cursor q + 1" by (simp add: line_feed_def cursor_def advance_def)
  have "cursor ?p1 \<le> cursor (words_sep_run ?p1)" by (rule scanned_fields) simp
  with c show ?thesis
    by (subst words_sep_run.simps) (simp add: Let_def del: cursor_advance)
qed

lemma lex_list_progress:
  assumes "lex_list default_error_handler m p = Some (t, p')" "t \<noteq> YP_TOKEN_EOF"
  shows "cursor p < cursor p'"
proof (cases "is_whitespace_char (peek p)")
  case True
  with assms(1) have "p' = words_sep_run (start_token p)" by (simp add: lex_list_def)
  with words_sep_run_progress[of "start_token p"] show ?thesis by simp
next
  case False
  with assms(1) have "list_word default_error_handler m (start_token p) = Some (t, p')"
    by (simp add: lex_list_def)
  from list_word_progress[OF refl this assms(2), of "cursor p"] False show ?thesis by simp
qed

lemma cursor_line_feed [simp]: "cursor (line_feed p) = cursor p"
  by (simp add: cursor_def line_feed_def)

lemma fields_line_feed [simp]:
  "source (line_feed p) = source p" "peek (line_feed p) = peek p"
  "peek_at (line_feed p) k = peek_at p k" "tok_start (current (line_feed p)) = tok_start (current p)"
  by (simp_all add: line_feed_def peek_def peek_at_def byte_at_def cursor_def)

lemma fields_maybe_line_feed [simp]:
  "source (if c then line_feed p else p) = source p"
  "peek (if c then line_feed p else p) = peek p"
  "peek_at (if c then line_feed p else p) k = peek_at p k"
  "cursor (if c then line_feed p else p) = cursor p"
  "tok_start (current (if c then line_feed p else p)) = tok_start (current p)"
  by simp_all

lemma cursor_push [simp]: "cursor (push_lex_mode q m) = cursor q"
  by (simp add: push_lex_mode_def Let_def cursor_def)

lemma regexp_content_progress:
  "eh = default_error_handler \<Longrightarrow> regexp_content eh m q = Some (t, p') \<Longrightarrow> t \<noteq> YP_TOKEN_EOF \<Longrightarrow>
   c0 \<le> cursor q \<Longrightarrow>
   c0 < cursor q \<or> (peek q \<noteq> lex_term m \<and> tok_start (current q) = cursor q) \<Longrightarrow>
   c0 < cursor p'"
proof (induction eh m q rule: regexp_content.induct)
  case (1 eh m q)
  let ?p1 = "if peek q = CHR 0x0A then line_feed q else q"
  show ?case
  proof (cases "cursor q < length (source q) \<and> peek q \<noteq> lex_term m
                 \<and> \<not> (peek ?p1 = CHR ''#'' \<and> peek_at ?p1 1 = CHR ''{'')")
    case True
    then have "regexp_content eh m q = regexp_content eh m (advance 1 ?p1)"
      by (auto simp add: regexp_content.simps[of eh m q] Let_def)
    with "1.prems" have r: "regexp_content eh m (advance 1 ?p1) = Some (t, p')" by simp
    show ?thesis
      using True "1.prems"(4)
      by (intro "1.IH"[OF _ _ refl _ "1.prems"(1) r "1.prems"(3)]) simp_all
  next
    case False
    with "1.prems" show ?thesis
      by (subst (asm) regexp_content.simps)
         (auto simp: unrecoverable_def Let_def split: if_splits)
  qed
qed

lemma string_content_progress:
  "eh = default_error_handler \<Longrightarrow> string_content eh m q = Some (t, p') \<Longrightarrow> t \<noteq> YP_TOKEN_EOF \<Longrightarrow>
   c0 \<le> cursor q \<Longrightarrow>
   c0 < cursor q \<or> (peek q \<noteq> lex_term m \<and> tok_start (current q) = cursor q) \<Longrightarrow>
   c0 < cursor p'"
proof (induction eh m q rule: string_content.induct)
  case (1 eh m q)
  let ?p1 = "if peek q = CHR 0x0A then line_feed q else q"
  show ?case
  proof (cases "cursor q < length (source q) \<and> peek q \<noteq> lex_term m
                 \<and> \<not> (lex_interp m \<and> peek ?p1 = CHR ''#'' \<and> peek_at ?p1 1 = CHR ''{'')")
    case True
    then have "string_content eh m q = string_content eh m (advance 1 ?p1)"
      by (auto simp add: string_content.simps[of eh m q] Let_def)
    with "1.prems" have r: "string_content eh m (advance 1 ?p1) = Some (t, p')" by simp
    show ?thesis
      using True "1.prems"(4)
      by (intro "1.IH"[OF _ _ refl _ "1.prems"(1) r "1.prems"(3)]) simp_all
  next
    case False
    with "1.prems" show ?thesis
      by (subst (asm) string_content.simps)
         (auto simp: unrecoverable_def Let_def split: if_splits)
  qed
qed
lemma lex_regexp_progress:
  assumes "lex_regexp default_error_handler m p = Some (t, p')" "t \<noteq> YP_TOKEN_EOF"
  shows "cursor p < cursor p'"
proof (cases "peek p = lex_term m")
  case True
  with assms(1) have "pop_lex_mode (regexp_options (advance 1 (start_token p))) = Some p'"
    by (auto simp: lex_regexp_def match_then_def match_def)
  from cursor_pop[OF this] have "cursor p' = cursor (regexp_options (advance 1 (start_token p)))" .
  moreover have "cursor (advance 1 (start_token p)) \<le> cursor (regexp_options (advance 1 (start_token p)))"
    by (rule scanned_fields) simp
  ultimately show ?thesis by simp
next
  case False
  with assms(1) have "regexp_content default_error_handler m (start_token p) = Some (t, p')"
    by (simp add: lex_regexp_def match_then_def match_def)
  from regexp_content_progress[OF refl this assms(2), of "cursor p"] False show ?thesis by simp
qed

lemma lex_string_progress:
  assumes "lex_string default_error_handler m p = Some (t, p')" "t \<noteq> YP_TOKEN_EOF"
  shows "cursor p < cursor p'"
proof (cases "peek p = lex_term m")
  case True
  with assms(1) have "pop_lex_mode (advance 1 (start_token p)) = Some p'"
    by (auto simp: lex_string_def match_then_def match_def)
  from cursor_pop[OF this] show ?thesis by simp
next
  case False
  with assms(1) have "string_content default_error_handler m (start_token p) = Some (t, p')"
    by (simp add: lex_string_def match_then_def match_def)
  from string_content_progress[OF refl this assms(2), of "cursor p"] False show ?thesis by simp
qed

lemma lex_symbol_progress:
  assumes "lex_symbol p = Some (t, p')" "cursor p < length (source p)"
  shows "cursor p < cursor p'"
proof (cases "is_identifier_start_char (peek p)")
  case True
  with assms obtain p2 where p2: "pop_lex_mode (advance 1 (start_token p)) = Some p2"
    and p': "p' = snd (match_select (snd (lex_identifier p2)) CHR ''='' YP_TOKEN_IDENTIFIER
                        (fst (lex_identifier p2)))"
    by (auto simp: lex_symbol_def Let_def case_prod_beta split: option.splits)
  have "cursor p2 \<le> cursor p'"
    unfolding p' by (rule scanned_fields) simp
  with cursor_pop[OF p2] show ?thesis by simp
next
  case False
  with assms show ?thesis by (auto simp: lex_symbol_def Let_def)
qed

text \<open>At the end of the buffer.\<close>

lemma strncmp_eq_first:
  assumes "strncmp_eq p i v n" "0 < n" "v \<noteq> []"
  shows "byte_at p i = hd v"
proof -
  from assms(1) have e: "map (byte_at p) [i ..< i + n] = take n v" by (simp add: strncmp_eq_def)
  from assms(2) have "[i ..< i + n] = i # [Suc i ..< i + n]" by (simp add: upt_conv_Cons)
  with e assms(2,3) show ?thesis
    by (cases v; cases n) auto
qed

lemma strncmp_eq_at_end:
  assumes "i = length (source p)" "0 < n" "v \<noteq> []" "hd v \<noteq> NUL"
  shows "\<not> strncmp_eq p i v n"
  using strncmp_eq_first[of p i v n] assms by auto

lemma embdoc_line_stop: "length (source p) \<le> cursor p \<Longrightarrow> embdoc_line p = p"
  by (simp add: embdoc_line.simps[of p])

lemma lex_embdoc_at_end:
  assumes "cursor p = length (source p)"
  shows "lex_embdoc default_error_handler p = Some (YP_TOKEN_EOF, start_token p)"
proof -
  have "\<not> strncmp_eq p (cursor p) (''=end'' @ [CHR 0x0A]) 5"
    using assms by (intro strncmp_eq_at_end) (simp_all add: NUL_def)
  then show ?thesis
    using assms by (simp add: lex_embdoc_def Let_def embdoc_line_stop unrecoverable_def)
qed

lemma lex_list_at_end:
  assumes "cursor p = length (source p)"
  shows "lex_list default_error_handler m p = Some (YP_TOKEN_EOF, start_token p)"
  using assms peek_at_end[OF assms]
  by (simp add: lex_list_def list_word.simps[of _ m "start_token p"] unrecoverable_def)

lemma lex_regexp_at_end:
  assumes "cursor p = length (source p)" "lex_term m \<noteq> NUL"
  shows "lex_regexp default_error_handler m p = Some (YP_TOKEN_EOF, start_token p)"
  using assms peek_at_end[OF assms(1)]
  by (simp add: lex_regexp_def match_then_def match_def
      regexp_content.simps[of _ m "start_token p"] unrecoverable_def)

lemma lex_string_at_end:
  assumes "cursor p = length (source p)" "lex_term m \<noteq> NUL"
  shows "lex_string default_error_handler m p = Some (YP_TOKEN_EOF, start_token p)"
  using assms peek_at_end[OF assms(1)]
  by (simp add: lex_string_def match_then_def match_def
      string_content.simps[of _ m "start_token p"] unrecoverable_def)

lemma lex_regexp_at_end_NUL:
  assumes "cursor p = length (source p)" "lex_term m = NUL"
  shows "lex_regexp default_error_handler m p =
           map_option (Pair YP_TOKEN_REGEXP_END)
             (pop_lex_mode (regexp_options (advance 1 (start_token p))))"
  using assms peek_at_end[OF assms(1)]
  by (simp add: lex_regexp_def match_then_def match_def)

lemma lex_string_at_end_NUL:
  assumes "cursor p = length (source p)" "lex_term m = NUL"
  shows "lex_string default_error_handler m p =
           map_option (Pair YP_TOKEN_STRING_END) (pop_lex_mode (advance 1 (start_token p)))"
  using assms peek_at_end[OF assms(1)]
  by (simp add: lex_string_def match_then_def match_def)

lemma lex_token_type_moved:
  assumes "top_mode p = Some m" "lex_mode m \<noteq> YP_LEX_OUT_OF_RANGE"
    and "lex_token_type default_error_handler p = Some (t, p')"
  shows "\<exists>s. scanned p s \<and> moved (start_token s) p'"
proof -
  have d: "stepped (start_token (whitespace_run p)) (lex_default m p)"
    by (rule stepped_from_earlier[OF _ stepped_lex_default]) simp
  have "stepped (start_token p) (lex_token_type default_error_handler p)
        \<or> stepped (start_token (whitespace_run p)) (lex_token_type default_error_handler p)"
    using assms(1,2) d
    by (cases "lex_mode m")
       (simp_all add: lex_token_type_of_mode stepped_lex_embdoc stepped_lex_list
          stepped_lex_regexp stepped_lex_string stepped_lex_symbol)
  then have "moved (start_token p) p' \<or> moved (start_token (whitespace_run p)) p'"
    using assms(3) by (simp add: stepped_def)
  then show ?thesis
  proof
    assume "moved (start_token p) p'"
    then show ?thesis using scanned_refl by blast
  next
    assume "moved (start_token (whitespace_run p)) p'"
    moreover have "scanned p (whitespace_run p)" by simp
    ultimately show ?thesis by blast
  qed
qed

lemma lex_token_type_progress:
  assumes inl: "inline_stack p" and ns: "\<not> symbol_stuck p" and ins: "inside p"
    and r: "lex_token_type default_error_handler p = Some (t, p')" and t: "t \<noteq> YP_TOKEN_EOF"
  shows "calls_left p' < calls_left p \<and> (inline_stack p' \<or> spilled p') \<and> source p' = source p"
proof -
  from inline_stack_top[OF inl] obtain m where m: "top_mode p = Some m" by simp
  note mm = inline_stack_top_mode[OF inl m]
  from lex_token_type_moved[OF m mm(1) r] obtain s where
    s: "scanned p s" "moved (start_token s) p'" by blast
  have inls: "inline_stack (start_token s)"
    using inl s(1) by (simp add: inline_stack_scanned)
  note f = scanned_fields[OF s(1)] moved_fields[OF s(2)] inline_stack_moved[OF inls s(2)]
  have src: "source p' = source p" using f by simp
  have idx: "lex_modes_index p' \<le> lex_modes_index p + 1" using f by simp
  have cur: "cursor p \<le> cursor p'" using f by simp
  have "calls_left p' < calls_left p"
  proof (cases "cursor p < length (source p)")
    case True
    have "cursor p < cursor p'"
    proof (cases "lex_mode m")
      case YP_LEX_DEFAULT
      with r m show ?thesis by (simp add: lex_token_type_of_mode lex_default_progress)
    next
      case YP_LEX_EMBEXPR
      with r m show ?thesis by (simp add: lex_token_type_of_mode lex_default_progress)
    next
      case YP_LEX_EMBDOC
      with r m t True show ?thesis by (simp add: lex_token_type_of_mode lex_embdoc_progress)
    next
      case YP_LEX_LIST
      with r m t show ?thesis by (simp add: lex_token_type_of_mode lex_list_progress)
    next
      case YP_LEX_REGEXP
      with r m t show ?thesis by (simp add: lex_token_type_of_mode lex_regexp_progress)
    next
      case YP_LEX_STRING
      with r m t show ?thesis by (simp add: lex_token_type_of_mode lex_string_progress)
    next
      case YP_LEX_SYMBOL
      with r m True show ?thesis by (simp add: lex_token_type_of_mode lex_symbol_progress)
    next
      case YP_LEX_OUT_OF_RANGE
      with mm(1) show ?thesis by simp
    qed
    with True idx show ?thesis
      unfolding calls_left_def src by (cases "cursor p' \<le> length (source p)") auto
  next
    case False
    with ins have e: "cursor p = length (source p)" by (simp add: inside_def)
    have pop: "lex_modes_index p' < lex_modes_index p"
      if q: "scanned (start_token p) q" and p': "pop_lex_mode q = Some p'"
        and nd: "lex_mode m \<noteq> YP_LEX_DEFAULT" for q
    proof -
      have iq: "inline_stack q" using inl q by (simp add: inline_stack_scanned)
      from inline_stack_pop[OF iq] p' have "lex_modes_index p' = lex_modes_index q - 1" by auto
      moreover have "lex_modes_index q = lex_modes_index p"
        using scanned_fields[OF q] by simp
      moreover have "lex_modes_index p \<noteq> 0" using mm(2) nd by auto
      ultimately show ?thesis by simp
    qed
    have "lex_modes_index p' < lex_modes_index p"
    proof (cases "lex_mode m")
      case YP_LEX_DEFAULT
      with r m t e show ?thesis by (simp add: lex_token_type_of_mode lex_default_at_end)
    next
      case YP_LEX_EMBEXPR
      with r m t e show ?thesis by (simp add: lex_token_type_of_mode lex_default_at_end)
    next
      case YP_LEX_EMBDOC
      with r m t e show ?thesis by (simp add: lex_token_type_of_mode lex_embdoc_at_end)
    next
      case YP_LEX_LIST
      with r m t e show ?thesis by (simp add: lex_token_type_of_mode lex_list_at_end)
    next
      case YP_LEX_REGEXP
      show ?thesis
      proof (cases "lex_term m = NUL")
        case True
        with r m e YP_LEX_REGEXP
        have "pop_lex_mode (regexp_options (advance 1 (start_token p))) = Some p'"
          by (auto simp: lex_token_type_of_mode lex_regexp_at_end_NUL)
        then show ?thesis using YP_LEX_REGEXP by (intro pop[OF _ _]) simp_all
      next
        case False
        with r m t e YP_LEX_REGEXP show ?thesis
          by (simp add: lex_token_type_of_mode lex_regexp_at_end)
      qed
    next
      case YP_LEX_STRING
      show ?thesis
      proof (cases "lex_term m = NUL")
        case True
        with r m e YP_LEX_STRING
        have "pop_lex_mode (advance 1 (start_token p)) = Some p'"
          by (auto simp: lex_token_type_of_mode lex_string_at_end_NUL)
        then show ?thesis using YP_LEX_STRING by (intro pop[OF _ _]) simp_all
      next
        case False
        with r m t e YP_LEX_STRING show ?thesis
          by (simp add: lex_token_type_of_mode lex_string_at_end)
      qed
    next
      case YP_LEX_SYMBOL
      with ns m e show ?thesis by (simp add: symbol_stuck_def)
    next
      case YP_LEX_OUT_OF_RANGE
      with mm(1) show ?thesis by simp
    qed
    with e cur show ?thesis unfolding calls_left_def src by simp
  qed
  with f src show ?thesis by simp
qed
section \<open>Staying inside the buffer\<close>

text \<open>A byte that is not NUL and is read with the position inside the buffer or at its
  sentinel is a byte of the buffer, so the position after it is still inside.\<close>

lemma inside_next: "inside p \<Longrightarrow> peek p \<noteq> NUL \<Longrightarrow> inside (advance (Suc 0) p)"
  using peek_not_NUL_in_buffer[of p] by (simp add: inside_def)

lemma inside_advance_2: "Suc (cursor p) < length (source p) \<Longrightarrow> inside (advance 2 p)"
  by (simp add: inside_def)

lemma inside_updates [simp]:
  "inside (start_token p) = inside p"
  "inside (line_feed p) = inside p"
  "inside (push_lex_mode p m) = inside p"
  "inside (p\<lparr>previous := x\<rparr>) = inside p"
  "inside (p\<lparr>lineno := l\<rparr>) = inside p"
  by (simp_all add: inside_def start_token_def line_feed_def push_lex_mode_def cursor_def Let_def)

lemma inside_pop: "pop_lex_mode p = Some q \<Longrightarrow> inside q = inside p"
  by (auto simp: inside_def pop_lex_mode_def cursor_def
      split: if_splits mode_ref.splits option.splits)

lemma inside_match [simp]: "inside p \<Longrightarrow> c \<noteq> NUL \<Longrightarrow> inside (snd (match p c))"
  by (auto simp: match_def inside_next)

lemma inside_match_either [simp]:
  "inside p \<Longrightarrow> a \<noteq> NUL \<Longrightarrow> b \<noteq> NUL \<Longrightarrow> inside (snd (match_either p a b))"
  by (simp add: match_either_def case_prod_beta)

lemma inside_match_select [simp]:
  "inside p \<Longrightarrow> c \<noteq> NUL \<Longrightarrow> inside (snd (match_select p c a b))"
  by (simp add: match_select_def case_prod_beta)

lemma literal_not_NUL [simp]: "c \<noteq> CHR 0x00 \<Longrightarrow> c \<noteq> NUL"
  by (simp add: NUL_def)

lemma decimal_not_NUL: "is_decimal_number_char c \<Longrightarrow> c \<noteq> NUL"
  by (auto simp: is_decimal_number_char_def NUL_def)

lemma inside_next_decimal [simp]: "inside p \<Longrightarrow> is_decimal_number_char (peek p) \<Longrightarrow> inside (advance (Suc 0) p)"
  by (rule inside_next) (simp_all add: decimal_not_NUL)

lemma binary_not_NUL: "is_binary_number_char c \<Longrightarrow> c \<noteq> NUL"
  by (auto simp: is_binary_number_char_def NUL_def)

lemma inside_next_binary [simp]: "inside p \<Longrightarrow> is_binary_number_char (peek p) \<Longrightarrow> inside (advance (Suc 0) p)"
  by (rule inside_next) (simp_all add: binary_not_NUL)

lemma octal_not_NUL: "is_octal_number_char c \<Longrightarrow> c \<noteq> NUL"
  by (auto simp: is_octal_number_char_def NUL_def)

lemma inside_next_octal [simp]: "inside p \<Longrightarrow> is_octal_number_char (peek p) \<Longrightarrow> inside (advance (Suc 0) p)"
  by (rule inside_next) (simp_all add: octal_not_NUL)

lemma hexadecimal_not_NUL: "is_hexadecimal_number_char c \<Longrightarrow> c \<noteq> NUL"
  by (auto simp: is_hexadecimal_number_char_def NUL_def)

lemma inside_next_hexadecimal [simp]: "inside p \<Longrightarrow> is_hexadecimal_number_char (peek p) \<Longrightarrow> inside (advance (Suc 0) p)"
  by (rule inside_next) (simp_all add: hexadecimal_not_NUL)

lemma identifier_not_NUL: "is_identifier_char c \<Longrightarrow> c \<noteq> NUL"
  by (auto simp: is_identifier_char_def is_identifier_start_char_def is_decimal_number_char_def NUL_def)

lemma inside_next_identifier [simp]: "inside p \<Longrightarrow> is_identifier_char (peek p) \<Longrightarrow> inside (advance (Suc 0) p)"
  by (rule inside_next) (simp_all add: identifier_not_NUL)

lemma identifier_start_not_NUL: "is_identifier_start_char c \<Longrightarrow> c \<noteq> NUL"
  by (auto simp: is_identifier_start_char_def NUL_def)

lemma inside_next_identifier_start [simp]: "inside p \<Longrightarrow> is_identifier_start_char (peek p) \<Longrightarrow> inside (advance (Suc 0) p)"
  by (rule inside_next) (simp_all add: identifier_start_not_NUL)

lemma non_newline_whitespace_not_NUL: "is_non_newline_whitespace_char c \<Longrightarrow> c \<noteq> NUL"
  by (auto simp: is_non_newline_whitespace_char_def NUL_def)

lemma inside_next_non_newline_whitespace [simp]: "inside p \<Longrightarrow> is_non_newline_whitespace_char (peek p) \<Longrightarrow> inside (advance (Suc 0) p)"
  by (rule inside_next) (simp_all add: non_newline_whitespace_not_NUL)

lemma whitespace_not_NUL: "is_whitespace_char c \<Longrightarrow> c \<noteq> NUL"
  by (auto simp: is_whitespace_char_def is_non_newline_whitespace_char_def NUL_def)

lemma inside_next_whitespace [simp]: "inside p \<Longrightarrow> is_whitespace_char (peek p) \<Longrightarrow> inside (advance (Suc 0) p)"
  by (rule inside_next) (simp_all add: whitespace_not_NUL)

lemma regexp_option_not_NUL: "is_regexp_option c \<Longrightarrow> c \<noteq> NUL"
  by (auto simp: is_regexp_option_def NUL_def)

lemma inside_next_regexp_option [simp]: "inside p \<Longrightarrow> is_regexp_option (peek p) \<Longrightarrow> inside (advance (Suc 0) p)"
  by (rule inside_next) (simp_all add: regexp_option_not_NUL)

lemma inside_decimal_run [simp]: "inside p \<Longrightarrow> inside (decimal_run p)"
proof (induction p rule: decimal_run.induct)
  case (1 p)
  show ?case
  proof (cases "is_decimal_number_char (peek p)")
    case True
    with "1.prems" have "inside (snd (match (advance 1 p) CHR ''_''))" by simp
    from "1.IH"[OF True this] True show ?thesis by (simp add: decimal_run.simps[of p])
  next
    case False
    with "1.prems" show ?thesis by (simp add: decimal_run.simps[of p])
  qed
qed

lemma inside_binary_run [simp]: "inside p \<Longrightarrow> inside (binary_run p)"
proof (induction p rule: binary_run.induct)
  case (1 p)
  show ?case
  proof (cases "is_binary_number_char (peek p)")
    case True
    with "1.prems" have "inside (snd (match (advance 1 p) CHR ''_''))" by simp
    from "1.IH"[OF True this] True show ?thesis by (simp add: binary_run.simps[of p])
  next
    case False
    with "1.prems" show ?thesis by (simp add: binary_run.simps[of p])
  qed
qed

lemma inside_octal_run [simp]: "inside p \<Longrightarrow> inside (octal_run p)"
proof (induction p rule: octal_run.induct)
  case (1 p)
  show ?case
  proof (cases "is_octal_number_char (peek p)")
    case True
    with "1.prems" have "inside (snd (match (advance 1 p) CHR ''_''))" by simp
    from "1.IH"[OF True this] True show ?thesis by (simp add: octal_run.simps[of p])
  next
    case False
    with "1.prems" show ?thesis by (simp add: octal_run.simps[of p])
  qed
qed

lemma inside_hexadecimal_run [simp]: "inside p \<Longrightarrow> inside (hexadecimal_run p)"
proof (induction p rule: hexadecimal_run.induct)
  case (1 p)
  show ?case
  proof (cases "is_hexadecimal_number_char (peek p)")
    case True
    with "1.prems" have "inside (snd (match (advance 1 p) CHR ''_''))" by simp
    from "1.IH"[OF True this] True show ?thesis by (simp add: hexadecimal_run.simps[of p])
  next
    case False
    with "1.prems" show ?thesis by (simp add: hexadecimal_run.simps[of p])
  qed
qed

lemma inside_digit_run [simp]: "inside p \<Longrightarrow> inside (digit_run p)"
proof (induction p rule: digit_run.induct)
  case (1 p)
  show ?case
  proof (cases "is_decimal_number_char (peek p)")
    case True
    with "1.prems" have "inside (advance 1 p)" by simp
    from "1.IH"[OF True this] True show ?thesis by (simp add: digit_run.simps[of p])
  next
    case False
    with "1.prems" show ?thesis by (simp add: digit_run.simps[of p])
  qed
qed

lemma inside_identifier_run [simp]: "inside p \<Longrightarrow> inside (identifier_run p)"
proof (induction p rule: identifier_run.induct)
  case (1 p)
  show ?case
  proof (cases "is_identifier_char (peek p)")
    case True
    with "1.prems" have "inside (advance 1 p)" by simp
    from "1.IH"[OF True this] True show ?thesis by (simp add: identifier_run.simps[of p])
  next
    case False
    with "1.prems" show ?thesis by (simp add: identifier_run.simps[of p])
  qed
qed

lemma inside_whitespace_run [simp]: "inside p \<Longrightarrow> inside (whitespace_run p)"
proof (induction p rule: whitespace_run.induct)
  case (1 p)
  show ?case
  proof (cases "is_non_newline_whitespace_char (peek p)")
    case True
    with "1.prems" have "inside (advance 1 p)" by simp
    from "1.IH"[OF True this] True show ?thesis by (simp add: whitespace_run.simps[of p])
  next
    case False
    with "1.prems" show ?thesis by (simp add: whitespace_run.simps[of p])
  qed
qed

lemma inside_regexp_options [simp]: "inside p \<Longrightarrow> inside (regexp_options p)"
proof (induction p rule: regexp_options.induct)
  case (1 p)
  show ?case
  proof (cases "is_regexp_option (peek p)")
    case True
    with "1.prems" have "inside (advance 1 p)" by simp
    from "1.IH"[OF True this] True show ?thesis by (simp add: regexp_options.simps[of p])
  next
    case False
    with "1.prems" show ?thesis by (simp add: regexp_options.simps[of p])
  qed
qed

lemma inside_comment_run [simp]: "inside p \<Longrightarrow> inside (comment_run p)"
proof (induction p rule: comment_run.induct)
  case (1 p)
  show ?case
  proof (cases "peek p \<noteq> CHR 0x0A \<and> peek p \<noteq> NUL")
    case True
    with "1.prems" have "inside (advance 1 p)" by (simp add: inside_next)
    from "1.IH"[OF True this] True show ?thesis by (simp add: comment_run.simps[of p])
  next
    case False
    with "1.prems" show ?thesis by (auto simp add: comment_run.simps[of p])
  qed
qed

lemma inside_embdoc_line [simp]: "inside p \<Longrightarrow> inside (embdoc_line p)"
proof (induction p rule: embdoc_line.induct)
  case (1 p)
  show ?case
  proof (cases "cursor p < length (source p)")
    case True
    then have n: "inside (advance 1 p)" by (simp add: inside_def)
    show ?thesis
    proof (cases "peek p \<noteq> CHR 0x0A")
      case ne: True
      from "1.IH"[OF True ne n] True ne show ?thesis by (simp add: embdoc_line.simps[of p])
    next
      case False
      with True n show ?thesis by (simp add: embdoc_line.simps[of p])
    qed
  next
    case False
    with "1.prems" show ?thesis by (simp add: embdoc_line.simps[of p])
  qed
qed

lemma inside_words_sep_run:
  "inside p \<Longrightarrow> is_whitespace_char (peek p) \<Longrightarrow> inside (words_sep_run p)"
proof (induction p rule: words_sep_run.induct)
  case (1 p)
  let ?p1 = "advance 1 (if peek p = CHR 0x0A then line_feed p else p)"
  have "inside (advance (Suc 0) p)"
    using "1.prems" by simp
  then have i1: "inside ?p1"
    by (simp add: inside_def line_feed_def cursor_def advance_def)
  show ?case
  proof (cases "is_whitespace_char (peek ?p1)")
    case True
    from "1.IH"[OF refl True i1 True] True show ?thesis
      by (simp add: words_sep_run.simps[of p] Let_def)
  next
    case False
    with i1 show ?thesis by (simp add: words_sep_run.simps[of p] Let_def)
  qed
qed

text \<open>A comparison with a string literal that succeeds has read bytes of the buffer
  only, since the sentinel differs from every byte of the literal.\<close>

lemma strncmp_eq_inside:
  assumes "strncmp_eq p (cursor p) v n" "inside p" "NUL \<notin> set (take n v)" "n \<le> length v"
  shows "inside (advance n p)"
proof (rule ccontr)
  assume "\<not> inside (advance n p)"
  with assms(2) have k: "cursor p \<le> length (source p)" "length (source p) < cursor p + n"
    by (simp_all add: inside_def)
  let ?k = "length (source p) - cursor p"
  from assms(1) have e: "map (byte_at p) [cursor p ..< cursor p + n] = take n v"
    by (simp add: strncmp_eq_def)
  from k have kn: "?k < n" by simp
  then have "map (byte_at p) [cursor p ..< cursor p + n] ! ?k = byte_at p (cursor p + ?k)"
    by simp
  with k have "map (byte_at p) [cursor p ..< cursor p + n] ! ?k = NUL" by simp
  with e have "take n v ! ?k = NUL" by simp
  moreover from kn assms(4) have "?k < length (take n v)" by simp
  ultimately have "NUL \<in> set (take n v)" by (metis nth_mem)
  with assms(3) show False by simp
qed

section \<open>The helpers of the dispatcher stay inside the buffer\<close>

lemma inside_lex_optional_float_suffix [simp]:
  "inside p \<Longrightarrow> inside (snd (lex_optional_float_suffix p))"
  by (simp add: lex_optional_float_suffix_def Let_def case_prod_beta inside_advance_2)

lemma inside_trailing_underscore_check [simp]:
  "inside (snd r) \<Longrightarrow> inside (snd (trailing_underscore_check r))"
  by (simp add: trailing_underscore_check_def case_prod_beta)

lemma inside_lex_numeric_prefix [simp]:
  "inside p \<Longrightarrow> inside (snd (lex_numeric_prefix p))"
  by (auto simp: lex_numeric_prefix_def Let_def inside_next)

lemma inside_lex_numeric [simp]: "inside p \<Longrightarrow> inside (snd (lex_numeric p))"
  by (simp add: lex_numeric_def Let_def case_prod_beta)

lemma inside_lex_global_variable [simp]:
  "inside p \<Longrightarrow> inside (snd (lex_global_variable p))"
proof -
  assume i: "inside p"
  have d: "is_decimal_number_char (peek p)" if "CHR ''1'' \<le> peek p" "peek p \<le> CHR ''9''"
    using that by (auto simp: is_decimal_number_char_def less_eq_char_def)
  show ?thesis
    using i d by (auto simp: lex_global_variable_def Let_def inside_next)
qed

lemma inside_lex_identifier [simp]: "inside p \<Longrightarrow> inside (snd (lex_identifier p))"
  by (simp add: lex_identifier_def Let_def case_prod_beta split: option.splits)

section \<open>A call that starts inside the buffer\<close>

lemma within_None [simp]: "within None"
  by (simp add: within_def)

lemma within_Some: "inside (snd r) \<Longrightarrow> within (Some r)"
  by (cases r) (simp add: within_def)

lemma within_Some_pair [simp]: "inside q \<Longrightarrow> within (Some (t, q))"
  by (simp add: within_def)

lemma within_pop [simp]: "inside q \<Longrightarrow> within (map_option (Pair t) (pop_lex_mode q))"
  by (cases "pop_lex_mode q") (simp_all add: inside_pop)

lemma within_match_select [simp]:
  "inside q \<Longrightarrow> c \<noteq> NUL \<Longrightarrow> within (Some (match_select q c a b))"
  by (rule within_Some) simp

lemma within_lex_numeric [simp]: "inside q \<Longrightarrow> within (Some (lex_numeric q))"
  by (rule within_Some) simp

lemma within_lex_global_variable [simp]:
  "inside q \<Longrightarrow> within (Some (lex_global_variable q))"
  by (rule within_Some) simp

lemma within_lex_identifier [simp]: "inside q \<Longrightarrow> within (Some (lex_identifier q))"
  by (rule within_Some) simp

lemma within_unrecoverable [simp]: "inside q \<Longrightarrow> within (Some (unrecoverable q))"
  by (simp add: unrecoverable_def)

lemma within_match_then:
  assumes "inside q" "c \<noteq> NUL"
    and "\<And>q'. inside q' \<Longrightarrow> within (yes q')"
    and "\<And>q'. inside q' \<Longrightarrow> within (no q')"
  shows "within (match_then q c yes no)"
  using assms by (simp add: match_then_def match_def inside_next)

lemma within_guarded_match_then:
  assumes "inside q" "c \<noteq> NUL"
    and "\<And>q'. inside q' \<Longrightarrow> within (yes q')"
    and "\<And>q'. inside q' \<Longrightarrow> within (no q')"
  shows "within (guarded_match_then g q c yes no)"
  using assms by (simp add: guarded_match_then_def within_match_then)

lemma within_if_cond:
  "(c \<Longrightarrow> within a) \<Longrightarrow> (\<not> c \<Longrightarrow> within b) \<Longrightarrow> within (if c then a else b)"
  by simp

text \<open>A percent literal consumes the byte after its type letter unchecked: with the
  type letter as last byte of the buffer, that byte is the sentinel.\<close>

lemma within_percent_literal:
  assumes "inside p" "peek p \<noteq> NUL" "tok_start (current p) + 1 = cursor p"
    and "percent_opener token"
  shows "within (Some (percent_literal p tag i token))"
proof -
  from assms(1,2) have "cursor p < length (source p)" by (rule peek_not_NUL_in_buffer)
  then have "cursor p + 2 \<le> length (source p) \<or> cursor p + 2 = length (source p) + 1"
    by auto
  then show ?thesis
    using assms(3,4)
    by (auto simp: within_def percent_literal_def Let_def inside_def sentinel_delimiter_def
        push_lex_mode_def cursor_def advance_def)
qed

lemma inside_begin:
  "inside p \<Longrightarrow> strncmp_eq p (cursor p) (''begin'' @ [CHR 0x0A]) 6 \<Longrightarrow> inside (advance 6 p)"
  using strncmp_eq_inside[of p "''begin'' @ [CHR 0x0A]" 6] by (simp add: NUL_def)

lemma inside_end:
  "inside p \<Longrightarrow> strncmp_eq p (cursor p) (''=end'' @ [CHR 0x0A]) 5 \<Longrightarrow> inside (advance 5 p)"
  using strncmp_eq_inside[of p "''=end'' @ [CHR 0x0A]" 5] by (simp add: NUL_def)

lemma whitespace_run_peek: "\<not> is_non_newline_whitespace_char (peek (whitespace_run p))"
proof (induction p rule: whitespace_run.induct)
  case (1 p)
  then show ?case by (cases "is_non_newline_whitespace_char (peek p)")
      (simp_all add: whitespace_run.simps[of p])
qed

lemma whitespace_run_idem: "whitespace_run (whitespace_run p) = whitespace_run p"
  by (rule whitespace_run_stop) (rule whitespace_run_peek)

lemma lex_default_whitespace: "lex_default m (whitespace_run p) = lex_default m p"
  by (simp add: lex_default_def whitespace_run_idem)

lemma within_lex_default:
  assumes "inside p0"
  shows "within (lex_default m p0)"
proof -
  let ?w = "whitespace_run p0"
  have iw: "inside ?w" using assms by simp
  show ?thesis
  proof (cases "cursor ?w = length (source ?w)")
    case True
    from lex_default_at_end[OF True, of m]
    have "lex_default m p0 = Some (YP_TOKEN_EOF, advance 1 (start_token ?w))"
      by (simp add: lex_default_whitespace)
    then show ?thesis
      using True by (simp add: within_def sentinel_eof_def)
  next
    case False
    with iw have ins: "inside (advance (Suc 0) (start_token ?w))"
      by (simp add: inside_def)
    show ?thesis
      unfolding lex_default_def Let_def case_prod_beta
      by (intro within_if_cond within_match_then within_guarded_match_then)
         (use ins in \<open>simp_all del: advance_advance
            add: inside_next inside_begin within_percent_literal percent_opener_def\<close>)
  qed
qed

lemma within_lex_embdoc: "inside p \<Longrightarrow> within (lex_embdoc default_error_handler p)"
  unfolding lex_embdoc_def Let_def
  by (intro within_if_cond) (simp_all add: inside_end)

lemma within_list_word_gen:
  "eh = default_error_handler \<Longrightarrow> inside q \<Longrightarrow> within (list_word eh m q)"
proof (induction eh m q rule: list_word.induct)
  case (1 eh m q)
  have n: "inside (advance (Suc 0) q)" if "cursor q < length (source q)"
    using that by (simp add: inside_def)
  have rec: "within (list_word eh m (advance (Suc 0) q))"
    if "cursor q < length (source q)" "\<not> is_whitespace_char (peek q)" "peek q \<noteq> lex_term m"
    using "1.IH"[OF that "1.prems"(1)] n[OF that(1)] by simp
  show ?case
    by (subst list_word.simps, intro within_if_cond)
       (use rec n "1.prems" in \<open>simp_all del: advance_advance\<close>)
qed

lemma within_list_word:
  "inside q \<Longrightarrow> within (list_word default_error_handler m q)"
  by (rule within_list_word_gen) simp_all

lemma within_lex_list: "inside p \<Longrightarrow> within (lex_list default_error_handler m p)"
  unfolding lex_list_def
  by (intro within_if_cond within_list_word) (simp_all add: inside_words_sep_run)

lemma inside_opener:
  assumes "cursor q < length (source q)" "peek_at q 1 = CHR ''{''"
  shows "inside (advance 2 q)"
proof -
  have "cursor q + 1 \<noteq> length (source q)"
    using assms(2) by (auto simp: peek_at_def NUL_def)
  with assms(1) show ?thesis by (simp add: inside_def)
qed

lemma inside_advance_line_feed [simp]:
  "inside (advance n (line_feed p)) = inside (advance n p)"
  by (simp add: inside_def line_feed_def cursor_def advance_def)

lemma within_regexp_content_gen:
  "eh = default_error_handler \<Longrightarrow> inside q \<Longrightarrow> within (regexp_content eh m q)"
proof (induction eh m q rule: regexp_content.induct)
  case (1 eh m q)
  let ?p1 = "if peek q = CHR 0x0A then line_feed q else q"
  have i1: "inside ?p1" using "1.prems" by simp
  have n: "inside (advance (Suc 0) ?p1)" if "cursor q < length (source q)"
    using that by (simp add: inside_def)
  have o: "inside (advance 2 ?p1)"
    if "cursor q < length (source q)" "peek ?p1 = CHR ''#'' \<and> peek_at ?p1 1 = CHR ''{''"
    using inside_opener[of q] that by simp
  have rec: "within (regexp_content eh m (advance (Suc 0) ?p1))"
    if "cursor q < length (source q)" "peek q \<noteq> lex_term m"
       "\<not> (peek ?p1 = CHR ''#'' \<and> peek_at ?p1 1 = CHR ''{'')"
    using "1.IH"[OF that(1,2) refl that(3) "1.prems"(1)] n[OF that(1)] by simp
  show ?case
    by (subst regexp_content.simps, unfold Let_def, intro within_if_cond)
       (use rec i1 o "1.prems" in \<open>simp_all del: advance_advance\<close>)
qed

lemma within_regexp_content:
  "inside q \<Longrightarrow> within (regexp_content default_error_handler m q)"
  by (rule within_regexp_content_gen) simp_all

lemma within_string_content_gen:
  "eh = default_error_handler \<Longrightarrow> inside q \<Longrightarrow> within (string_content eh m q)"
proof (induction eh m q rule: string_content.induct)
  case (1 eh m q)
  let ?p1 = "if peek q = CHR 0x0A then line_feed q else q"
  have i1: "inside ?p1" using "1.prems" by simp
  have n: "inside (advance (Suc 0) ?p1)" if "cursor q < length (source q)"
    using that by (simp add: inside_def)
  have o: "inside (advance 2 ?p1)"
    if "cursor q < length (source q)"
       "lex_interp m \<and> peek ?p1 = CHR ''#'' \<and> peek_at ?p1 1 = CHR ''{''"
    using inside_opener[of q] that by simp
  have rec: "within (string_content eh m (advance (Suc 0) ?p1))"
    if "cursor q < length (source q)" "peek q \<noteq> lex_term m"
       "\<not> (lex_interp m \<and> peek ?p1 = CHR ''#'' \<and> peek_at ?p1 1 = CHR ''{'')"
    using "1.IH"[OF that(1,2) refl that(3) "1.prems"(1)] n[OF that(1)] by simp
  show ?case
    by (subst string_content.simps, unfold Let_def, intro within_if_cond)
       (use rec i1 o "1.prems" in \<open>simp_all del: advance_advance\<close>)
qed

lemma within_string_content:
  "inside q \<Longrightarrow> within (string_content default_error_handler m q)"
  by (rule within_string_content_gen) simp_all

text \<open>A terminator found at the sentinel is a NUL terminator: the token starts at the end
  of the buffer and ends past it.\<close>

lemma within_terminator_at_sentinel:
  assumes "cursor p = length (source p)" "scanned (advance 1 (start_token p)) q"
    and "t = YP_TOKEN_STRING_END \<or> t = YP_TOKEN_REGEXP_END"
  shows "within (map_option (Pair t) (pop_lex_mode q))"
proof (cases "pop_lex_mode q")
  case None
  then show ?thesis by simp
next
  case (Some q')
  have r: "restacked q q'" using Some by (simp add: restacked_def)
  note f = scanned_fields[OF assms(2)] restacked_fields[OF r]
  have "source q' = source p" "tok_start (current q') = cursor p" "cursor p < cursor q'"
    using f by (simp_all add: cursor_def)
  with assms(1,3) Some show ?thesis
    by (auto simp: within_def sentinel_delimiter_def)
qed

lemma within_lex_regexp:
  assumes "inside p"
  shows "within (lex_regexp default_error_handler m p)"
proof (cases "peek p = lex_term m")
  case True
  then have r: "lex_regexp default_error_handler m p =
      map_option (Pair YP_TOKEN_REGEXP_END)
        (pop_lex_mode (regexp_options (advance 1 (start_token p))))"
    by (simp add: lex_regexp_def match_then_def match_def)
  show ?thesis
  proof (cases "cursor p = length (source p)")
    case True
    show ?thesis unfolding r
      by (rule within_terminator_at_sentinel[OF True]) simp_all
  next
    case False
    with assms have "inside (advance (Suc 0) (start_token p))" by (simp add: inside_def)
    then show ?thesis unfolding r by simp
  qed
next
  case False
  then have "lex_regexp default_error_handler m p =
      regexp_content default_error_handler m (start_token p)"
    by (simp add: lex_regexp_def match_then_def match_def)
  with assms show ?thesis by (simp add: within_regexp_content)
qed

lemma within_lex_string:
  assumes "inside p"
  shows "within (lex_string default_error_handler m p)"
proof (cases "peek p = lex_term m")
  case True
  then have r: "lex_string default_error_handler m p =
      map_option (Pair YP_TOKEN_STRING_END) (pop_lex_mode (advance 1 (start_token p)))"
    by (simp add: lex_string_def match_then_def match_def)
  show ?thesis
  proof (cases "cursor p = length (source p)")
    case True
    show ?thesis unfolding r
      by (rule within_terminator_at_sentinel[OF True]) simp_all
  next
    case False
    with assms have "inside (advance (Suc 0) (start_token p))" by (simp add: inside_def)
    then show ?thesis unfolding r by simp
  qed
next
  case False
  then have "lex_string default_error_handler m p =
      string_content default_error_handler m (start_token p)"
    by (simp add: lex_string_def match_then_def match_def)
  with assms show ?thesis by (simp add: within_string_content)
qed

lemma within_lex_symbol:
  assumes "inside p"
  shows "within (lex_symbol p)"
proof (cases "cursor p < length (source p)")
  case False
  with assms show ?thesis by (simp add: lex_symbol_def Let_def)
next
  case True
  then have n: "inside (advance (Suc 0) (start_token p))" by (simp add: inside_def)
  show ?thesis
  proof (cases "pop_lex_mode (advance 1 (start_token p))")
    case None
    with True n show ?thesis by (simp add: lex_symbol_def Let_def)
  next
    case (Some p2)
    with n have "inside p2" using inside_pop[OF Some] by simp
    with True n Some show ?thesis
      by (simp add: lex_symbol_def Let_def case_prod_beta)
  qed
qed

lemma within_lex_token_type:
  assumes "inside p"
  shows "within (lex_token_type default_error_handler p)"
proof (cases "deref p (lex_modes_current p)")
  case None
  then show ?thesis by (simp add: lex_token_type_def)
next
  case (Some m)
  with assms show ?thesis
    by (cases "lex_mode m")
       (simp_all add: lex_token_type_def within_lex_default within_lex_embdoc within_lex_list
          within_lex_regexp within_lex_string within_lex_symbol)
qed

lemma yp_lex_token_within:
  assumes "inside p" "yp_lex_token default_error_handler p = Some q"
  shows "inside q
         \<or> sentinel_eof (length (source q)) (tok_type (current q)) (tok_start (current q))
              (tok_end (current q))
         \<or> delimiter_overrun q"
proof -
  let ?pp = "p\<lparr>previous := current p\<rparr>"
  from assms(2) obtain t p1 where r: "lex_token_type default_error_handler ?pp = Some (t, p1)"
    and q: "q = p1\<lparr>current := (current p1)\<lparr>tok_type := t\<rparr>\<rparr>"
    by (auto simp: yp_lex_token_def split: option.splits)
  have "within (lex_token_type default_error_handler ?pp)"
    using assms(1) by (intro within_lex_token_type) simp
  with r show ?thesis
    by (simp add: within_def q inside_def cursor_def delimiter_overrun_def)
qed

section \<open>Reaching EOF\<close>

lemma measures_previous_update [simp]:
  "calls_left (p\<lparr>previous := x\<rparr>) = calls_left p"
  "symbol_stuck (p\<lparr>previous := x\<rparr>) = symbol_stuck p"
  "spilled (p\<lparr>previous := x\<rparr>) = spilled p"
  by (simp_all add: calls_left_def symbol_stuck_def spilled_def)

lemma measures_type_update [simp]:
  "calls_left (p\<lparr>current := (current p)\<lparr>tok_type := t\<rparr>\<rparr>) = calls_left p"
  "spilled (p\<lparr>current := c\<rparr>) = spilled p"
  "cursor (p\<lparr>current := (current p)\<lparr>tok_type := t\<rparr>\<rparr>) = cursor p"
  "inside (p\<lparr>current := (current p)\<lparr>tok_type := t\<rparr>\<rparr>) = inside p"
  by (simp_all add: calls_left_def spilled_def cursor_def inside_def)

lemma yp_lex_token_progress:
  assumes "inline_stack p" "\<not> symbol_stuck p" "inside p"
  obtains p1 where "yp_lex_token default_error_handler p = Some p1"
    and "tok_type (current p1) \<noteq> YP_TOKEN_EOF \<Longrightarrow>
           calls_left p1 < calls_left p \<and> (inline_stack p1 \<or> spilled p1)"
    and "inside p1 \<or> tok_type (current p1) = YP_TOKEN_EOF \<or> delimiter_overrun p1"
proof -
  let ?pp = "p\<lparr>previous := current p\<rparr>"
  have i: "inline_stack ?pp" "\<not> symbol_stuck ?pp" "inside ?pp" using assms by simp_all
  from lex_token_type_defined[OF i(1)] obtain t p' where
    r: "lex_token_type default_error_handler ?pp = Some (t, p')" by auto
  let ?p1 = "p'\<lparr>current := (current p')\<lparr>tok_type := t\<rparr>\<rparr>"
  have c: "yp_lex_token default_error_handler p = Some ?p1"
    by (simp add: yp_lex_token_def r)
  have "calls_left ?p1 < calls_left p \<and> (inline_stack ?p1 \<or> spilled ?p1)"
    if "tok_type (current ?p1) \<noteq> YP_TOKEN_EOF"
  proof -
    from that have "t \<noteq> YP_TOKEN_EOF" by simp
    from lex_token_type_progress[OF i r this] show ?thesis by simp
  qed
  moreover have "inside ?p1 \<or> tok_type (current ?p1) = YP_TOKEN_EOF \<or> delimiter_overrun ?p1"
    using yp_lex_token_within[OF assms(3) c] by (auto simp: sentinel_eof_def)
  ultimately show ?thesis using c by (intro that[of ?p1])
qed

lemma reaches_eof:
  "inline_stack p \<Longrightarrow> inside p \<Longrightarrow>
   \<exists>n\<le>calls_left p + 1. \<exists>q. lex_n default_error_handler n p = Some q
      \<and> (0 < n \<and> tok_type (current q) = YP_TOKEN_EOF \<or> spilled q \<or> symbol_stuck q
           \<or> delimiter_overrun q)"
proof (induction "calls_left p" arbitrary: p rule: less_induct)
  case less
  show ?case
  proof (cases "symbol_stuck p")
    case True
    then have "lex_n default_error_handler 0 p = Some p \<and> symbol_stuck p" by simp
    then show ?thesis by blast
  next
    case False
    from yp_lex_token_progress[OF less.prems(1) False less.prems(2)] obtain p1 where
      c: "yp_lex_token default_error_handler p = Some p1"
      and pr: "tok_type (current p1) \<noteq> YP_TOKEN_EOF \<Longrightarrow>
                 calls_left p1 < calls_left p \<and> (inline_stack p1 \<or> spilled p1)"
      and ins: "inside p1 \<or> tok_type (current p1) = YP_TOKEN_EOF \<or> delimiter_overrun p1"
      by blast
    have one: "lex_n default_error_handler (Suc 0) p = Some p1" by (simp add: c)
    show ?thesis
    proof (cases "tok_type (current p1) = YP_TOKEN_EOF \<or> spilled p1 \<or> delimiter_overrun p1")
      case True
      with one have "Suc 0 \<le> calls_left p + 1 \<and> lex_n default_error_handler (Suc 0) p = Some p1
        \<and> (0 < Suc 0 \<and> tok_type (current p1) = YP_TOKEN_EOF \<or> spilled p1 \<or> symbol_stuck p1
             \<or> delimiter_overrun p1)"
        by auto
      then show ?thesis by blast
    next
      case False
      with pr ins have lt: "calls_left p1 < calls_left p" and i1: "inline_stack p1"
        and in1: "inside p1" by auto
      from less.hyps[OF lt i1 in1] obtain n q where
        n: "n \<le> calls_left p1 + 1" "lex_n default_error_handler n p1 = Some q"
           "0 < n \<and> tok_type (current q) = YP_TOKEN_EOF \<or> spilled q \<or> symbol_stuck q
              \<or> delimiter_overrun q"
        by blast
      have "Suc n \<le> calls_left p + 1 \<and> lex_n default_error_handler (Suc n) p = Some q
        \<and> (0 < Suc n \<and> tok_type (current q) = YP_TOKEN_EOF \<or> spilled q \<or> symbol_stuck q
             \<or> delimiter_overrun q)"
        using n lt c by auto
      then show ?thesis by blast
    qed
  qed
qed

lemma inline_stack_init: "inline_stack (yp_parser_init src pre post mem)"
  by (simp add: inline_stack_def yp_parser_init_def YP_LEX_STACK_SIZE_def mk_lex_mode_def
      list_all_iff)

lemma calls_left_init: "calls_left (yp_parser_init src pre post mem) = 2 * length src"
  by (simp add: calls_left_def yp_parser_init_def cursor_def)

lemma inside_init: "inside (yp_parser_init src pre post mem)"
  by (simp add: inside_def yp_parser_init_def cursor_def)

section \<open>After EOF\<close>

text \<open>The EOF of an unterminated literal leaves the parser where it was.\<close>

lemma unterminated_step:
  assumes "unterminated p"
  shows "\<exists>q. yp_lex_token default_error_handler p = Some q
           \<and> tok_type (current q) = YP_TOKEN_EOF \<and> unterminated q
           \<and> tok_start (current q) = length (source p) \<and> tok_end (current q) = length (source p)
           \<and> source q = source p"
proof -
  let ?pp = "p\<lparr>previous := current p\<rparr>"
  from assms obtain m where m: "top_mode p = Some m" and e: "cursor p = length (source p)"
    and mode: "lex_mode m \<in> {YP_LEX_EMBDOC, YP_LEX_LIST}
            \<or> ((lex_mode m = YP_LEX_REGEXP \<or> lex_mode m = YP_LEX_STRING) \<and> lex_term m \<noteq> NUL)"
    by (auto simp: unterminated_def split: option.splits)
  have m': "top_mode ?pp = Some m" using m by simp
  have e': "cursor ?pp = length (source ?pp)" using e by simp
  have "lex_token_type default_error_handler ?pp = Some (YP_TOKEN_EOF, start_token ?pp)"
    using mode e'
    by (cases "lex_mode m")
       (simp_all add: lex_token_type_of_mode[OF m'] lex_embdoc_at_end
          lex_list_at_end lex_regexp_at_end lex_string_at_end)
  then show ?thesis
    using m e mode
    by (auto simp: yp_lex_token_def unterminated_def cursor_def)
qed

lemma unterminated_forever:
  "unterminated p \<Longrightarrow> \<exists>q. lex_n default_error_handler (Suc n) p = Some q
      \<and> tok_type (current q) = YP_TOKEN_EOF \<and> unterminated q
      \<and> tok_start (current q) = length (source p) \<and> tok_end (current q) = length (source p)"
proof (induction n arbitrary: p)
  case 0
  from unterminated_step[OF 0] show ?case by auto
next
  case (Suc n)
  from unterminated_step[OF Suc.prems] obtain p1 where
    p1: "yp_lex_token default_error_handler p = Some p1" "unterminated p1"
      "source p1 = source p" by blast
  from Suc.IH[OF p1(2)] p1(1,3) show ?case by simp
qed

text \<open>In Default and EmbExpr mode a call that finds one of the three end-of-script
  bytes consumes it and returns EOF.\<close>

lemma end_of_script_not_whitespace:
  "end_of_script c \<Longrightarrow> \<not> is_non_newline_whitespace_char c"
  by (auto simp: end_of_script_def is_non_newline_whitespace_char_def NUL_def)

lemma lex_default_end_of_script:
  assumes "end_of_script (peek p)"
  shows "lex_default m p = Some (YP_TOKEN_EOF, advance 1 (start_token p))"
proof -
  have "whitespace_run p = p"
    using assms by (intro whitespace_run_stop end_of_script_not_whitespace)
  then show ?thesis using assms by (simp add: lex_default_def Let_def end_of_script_def)
qed

lemma code_mode_eof_step:
  assumes "code_mode p" "end_of_script (peek p)"
  shows "\<exists>q. yp_lex_token eh p = Some q \<and> tok_type (current q) = YP_TOKEN_EOF
           \<and> tok_start (current q) = cursor p \<and> tok_end (current q) = cursor p + 1
           \<and> code_mode q \<and> byte_at q = byte_at p"
proof -
  let ?pp = "p\<lparr>previous := current p\<rparr>"
  from assms(1) obtain m where m: "top_mode p = Some m"
    and mode: "lex_mode m = YP_LEX_DEFAULT \<or> lex_mode m = YP_LEX_EMBEXPR"
    by (auto simp: code_mode_def split: option.splits)
  have m': "top_mode ?pp = Some m" using m by simp
  have "lex_default m ?pp = Some (YP_TOKEN_EOF, advance 1 (start_token ?pp))"
    using assms(2) by (intro lex_default_end_of_script) simp
  with mode have "lex_token_type eh ?pp = Some (YP_TOKEN_EOF, advance 1 (start_token ?pp))"
    by (auto simp: lex_token_type_of_mode[OF m'])
  then show ?thesis
    using m mode
    by (auto simp: yp_lex_token_def code_mode_def cursor_def byte_at_def fun_eq_iff
        advance_def start_token_def)
qed

lemma code_mode_eof_run:
  "code_mode p \<Longrightarrow> (\<forall>i<k. end_of_script (byte_at p (cursor p + i))) \<Longrightarrow>
   \<exists>q. lex_n eh k p = Some q \<and> cursor q = cursor p + k \<and> code_mode q \<and> byte_at q = byte_at p
      \<and> (0 < k \<longrightarrow> tok_type (current q) = YP_TOKEN_EOF
                     \<and> tok_start (current q) + 1 = tok_end (current q))"
proof (induction k arbitrary: p)
  case 0
  then show ?case by simp
next
  case (Suc k)
  from Suc.prems(2) have "end_of_script (peek p)"
    by (auto simp: peek_def dest: spec[of _ 0])
  from code_mode_eof_step[OF Suc.prems(1) this, of eh] obtain p1 where
    p1: "yp_lex_token eh p = Some p1" "tok_type (current p1) = YP_TOKEN_EOF"
      "tok_start (current p1) = cursor p" "tok_end (current p1) = cursor p + 1"
      "code_mode p1" "byte_at p1 = byte_at p" by blast
  have c1: "cursor p1 = cursor p + 1" using p1(4) by (simp add: cursor_def)
  have "\<forall>i<k. end_of_script (byte_at p1 (cursor p1 + i))"
  proof (intro allI impI)
    fix i assume "i < k"
    then have "Suc i < Suc k" by simp
    with Suc.prems(2) have "end_of_script (byte_at p (cursor p + Suc i))" by blast
    then show "end_of_script (byte_at p1 (cursor p1 + i))" by (simp add: p1(6) c1)
  qed
  from Suc.IH[OF p1(5) this] obtain q where
    q: "lex_n eh k p1 = Some q" "cursor q = cursor p1 + k" "code_mode q" "byte_at q = byte_at p1"
       "0 < k \<longrightarrow> tok_type (current q) = YP_TOKEN_EOF
                     \<and> tok_start (current q) + 1 = tok_end (current q)"
    by blast
  have k0: "q = p1" if "k = 0" using q(1) that by simp
  have "tok_type (current q) = YP_TOKEN_EOF \<and> tok_start (current q) + 1 = tok_end (current q)"
    using q(5) k0 p1(2,3,4) by (cases "k = 0") auto
  with q p1 c1 show ?case by simp
qed

section \<open>Content before an interpolation\<close>

lemma content_end_Nil [simp]: "content_end [] p = p"
  by (simp add: content_end_def)


lemma scanned_content_end: "scanned p (content_end xs p)"
  unfolding scanned_def content_end_def by blast

lemma fields_content_end [simp]:
  "cursor (content_end xs p) = cursor p + length xs"
  "tok_end (current (content_end xs p)) = tok_end (current p) + length xs"
  "source (content_end xs p) = source p"
  "tok_start (current (content_end xs p)) = tok_start (current p)"
  "top_mode (content_end xs p) = top_mode p"
  "lex_modes_index (content_end xs p) = lex_modes_index p"
  by (simp_all add: content_end_def cursor_def)










section \<open>Scenarios\<close>

text \<open>
  C2. Lexing \<^verbatim>\<open>"a#{b}c"\<close> (8 bytes as written, 9 with the NUL that ends the C
  string literal) gives STRING_BEGIN, STRING_CONTENT \<open>a\<close>, EMBEXPR_BEGIN, IDENTIFIER
  \<open>b\<close>, EMBEXPR_END, STRING_CONTENT \<open>c\<close>, STRING_END and then EOF, whatever
  the memory around the buffer and the heap hold. The content
  \<open>a\<close> is emitted first, with \<^verbatim>\<open>#{\<close> left unread in String mode; the next
  call consumes the two bytes and leaves EmbExpr mode on top.
\<close>

theorem interpolated_string_token_sequence:
  "length ([CHR 0x22] @ ''a#{b}c'' @ [CHR 0x22]) = 8
   \<and> lex_source 8 ([CHR 0x22] @ ''a#{b}c'' @ [CHR 0x22]) pre post mem =
       Some [(YP_TOKEN_STRING_BEGIN, 0, 1, [CHR 0x22]),
             (YP_TOKEN_STRING_CONTENT, 1, 2, ''a''),
             (YP_TOKEN_EMBEXPR_BEGIN, 2, 4, ''#{''),
             (YP_TOKEN_IDENTIFIER, 4, 5, ''b''),
             (YP_TOKEN_EMBEXPR_END, 5, 6, ''}''),
             (YP_TOKEN_STRING_CONTENT, 6, 7, ''c''),
             (YP_TOKEN_STRING_END, 7, 8, [CHR 0x22]),
             (YP_TOKEN_EOF, 8, 9, [NUL])]
   \<and> lex_source 8 ([CHR 0x22] @ ''a#{b}c'' @ [CHR 0x22, NUL]) pre post mem =
       Some [(YP_TOKEN_STRING_BEGIN, 0, 1, [CHR 0x22]),
             (YP_TOKEN_STRING_CONTENT, 1, 2, ''a''),
             (YP_TOKEN_EMBEXPR_BEGIN, 2, 4, ''#{''),
             (YP_TOKEN_IDENTIFIER, 4, 5, ''b''),
             (YP_TOKEN_EMBEXPR_END, 5, 6, ''}''),
             (YP_TOKEN_STRING_CONTENT, 6, 7, ''c''),
             (YP_TOKEN_STRING_END, 7, 8, [CHR 0x22]),
             (YP_TOKEN_EOF, 8, 9, [NUL])]
   \<and> map_option (\<lambda>p. (map_option lex_mode (top_mode p), cursor p))
         (lex_n default_error_handler 2
            (yp_parser_init ([CHR 0x22] @ ''a#{b}c'' @ [CHR 0x22]) pre post mem))
       = Some (Some YP_LEX_STRING, 2)
   \<and> map_option (\<lambda>p. (map_option lex_mode (top_mode p), cursor p))
         (lex_n default_error_handler 3
            (yp_parser_init ([CHR 0x22] @ ''a#{b}c'' @ [CHR 0x22]) pre post mem))
       = Some (Some YP_LEX_EMBEXPR, 4)"
  by code_simp

text \<open>
  C3. Past the inline capacity \<^verbatim>\<open>push_lex_mode\<close> does not store the pushed
  mode: with the index at 3 or more before the call, the top of the stack after it is the
  fresh block with the content it had, whatever mode was pushed. In the deep interpolation
  the fourth push is the second \<^verbatim>\<open>#{\<close> (the sixth call): the top is then the
  content of block 0, not the EmbExpr mode. Over zeroed memory the lexer goes on in
  Default mode with a NUL terminator, and the rest of the text is not lexed as the same
  nesting is at the outer levels: \<open>c\<close> comes out as an identifier and the remainder as
  a comment.
\<close>

theorem push_past_inline_capacity_loses_mode:
  "top_mode (push_lex_mode (p\<lparr>lex_modes_index := 3 + k\<rparr>) m) = Some (heap p (heap_brk p))
   \<and> map_option top_mode
         (lex_n default_error_handler 6 (yp_parser_init deep_interpolation pre post mem))
       = Some (Some (mem 0))
   \<and> lex_source 10 deep_interpolation pre post zero_memory =
       Some [(YP_TOKEN_STRING_BEGIN, 0, 1, [CHR 0x22]),
             (YP_TOKEN_STRING_CONTENT, 1, 2, ''a''),
             (YP_TOKEN_EMBEXPR_BEGIN, 2, 4, ''#{''),
             (YP_TOKEN_STRING_BEGIN, 4, 5, [CHR 0x22]),
             (YP_TOKEN_STRING_CONTENT, 5, 6, ''b''),
             (YP_TOKEN_EMBEXPR_BEGIN, 6, 8, ''#{''),
             (YP_TOKEN_STRING_BEGIN, 8, 9, [CHR 0x22]),
             (YP_TOKEN_IDENTIFIER, 9, 10, ''c''),
             (YP_TOKEN_COMMENT, 10, 21,
                ''#{'' @ [CHR 0x22] @ ''d'' @ [CHR 0x22] @ ''}'' @ [CHR 0x22] @ ''}''
                  @ [CHR 0x22] @ ''}'' @ [CHR 0x22]),
             (YP_TOKEN_EOF, 21, 22, [NUL])]"
proof (intro conjI)
  show "top_mode (push_lex_mode (p\<lparr>lex_modes_index := 3 + k\<rparr>) m) = Some (heap p (heap_brk p))"
    by (simp add: top_mode_def push_lex_mode_def deref_def YP_LEX_STACK_SIZE_def Let_def)
  show "map_option top_mode
         (lex_n default_error_handler 6 (yp_parser_init deep_interpolation pre post mem))
       = Some (Some (mem 0))"
    by code_simp
  show "lex_source 10 deep_interpolation pre post zero_memory =
       Some [(YP_TOKEN_STRING_BEGIN, 0, 1, [CHR 0x22]),
             (YP_TOKEN_STRING_CONTENT, 1, 2, ''a''),
             (YP_TOKEN_EMBEXPR_BEGIN, 2, 4, ''#{''),
             (YP_TOKEN_STRING_BEGIN, 4, 5, [CHR 0x22]),
             (YP_TOKEN_STRING_CONTENT, 5, 6, ''b''),
             (YP_TOKEN_EMBEXPR_BEGIN, 6, 8, ''#{''),
             (YP_TOKEN_STRING_BEGIN, 8, 9, [CHR 0x22]),
             (YP_TOKEN_IDENTIFIER, 9, 10, ''c''),
             (YP_TOKEN_COMMENT, 10, 21,
                ''#{'' @ [CHR 0x22] @ ''d'' @ [CHR 0x22] @ ''}'' @ [CHR 0x22] @ ''}''
                  @ [CHR 0x22] @ ''}'' @ [CHR 0x22]),
             (YP_TOKEN_EOF, 21, 22, [NUL])]"
    by code_simp
qed

text \<open>
  C5. On the two bytes \<^verbatim>\<open>:1\<close> the colon pushes Symbol mode, since a digit is
  an identifier character. The second call consumes the digit, which is not an identifier
  start, and returns INVALID without popping; from then on the position is at the end of
  the buffer and every call returns INVALID with Symbol mode still on top.
\<close>

theorem symbol_mode_stays_after_invalid:
  "map_option (\<lambda>p. (tok_type (current p), map_option lex_mode (top_mode p), cursor p))
      (lex_n default_error_handler 1 (yp_parser_init '':1'' pre post mem))
     = Some (YP_TOKEN_SYMBOL_BEGIN, Some YP_LEX_SYMBOL, 1)
   \<and> map_option (\<lambda>p. (tok_type (current p), map_option lex_mode (top_mode p), cursor p))
      (lex_n default_error_handler 2 (yp_parser_init '':1'' pre post mem))
     = Some (YP_TOKEN_INVALID, Some YP_LEX_SYMBOL, 2)
   \<and> map_option (\<lambda>p. (tok_type (current p), map_option lex_mode (top_mode p), cursor p))
      (lex_n default_error_handler 3 (yp_parser_init '':1'' pre post mem))
     = Some (YP_TOKEN_INVALID, Some YP_LEX_SYMBOL, 2)"
  by code_simp

text \<open>
  C9. The text is a comment line, \<^verbatim>\<open>=begin\<close> and \<^verbatim>\<open>=end\<close>, each
  ending in a newline. Three calls consume all 15 bytes, the three newlines among them,
  and the line counter is still 1.
\<close>

theorem lineno_misses_comment_and_embdoc_newlines:
  "lex_source 3 (''#c'' @ [CHR 0x0A] @ ''=begin'' @ [CHR 0x0A] @ ''=end'' @ [CHR 0x0A]) pre post mem =
     Some [(YP_TOKEN_COMMENT, 0, 3, ''#c'' @ [CHR 0x0A]),
           (YP_TOKEN_EMBDOC_BEGIN, 3, 10, ''=begin'' @ [CHR 0x0A]),
           (YP_TOKEN_EMBDOC_END, 10, 15, ''=end'' @ [CHR 0x0A])]
   \<and> map_option lineno
        (lex_n default_error_handler 3
           (yp_parser_init (''#c'' @ [CHR 0x0A] @ ''=begin'' @ [CHR 0x0A] @ ''=end'' @ [CHR 0x0A])
              pre post mem))
     = Some 1"
  by code_simp


section \<open>The last line of an embedded document\<close>

lemma embdoc_line_no_newline:
  "cursor p \<le> length (source p) \<Longrightarrow>
   (\<forall>i. cursor p \<le> i \<and> i + 1 < length (source p) \<longrightarrow> source p ! i \<noteq> CHR 0x0A) \<Longrightarrow>
   embdoc_line p = advance (length (source p) - cursor p) p"
proof (induction p rule: embdoc_line.induct)
  case (1 p)
  show ?case
  proof (cases "cursor p < length (source p)")
    case False
    with "1.prems" show ?thesis by (simp add: embdoc_line.simps[of p])
  next
    case inb: True
    show ?thesis
    proof (cases "peek p = CHR 0x0A")
      case True
      with inb "1.prems"(2) have "cursor p + 1 = length (source p)"
        by (metis Suc_eq_plus1 Suc_lessI byte_at_in_buffer order_refl peek_def)
      with True inb show ?thesis by (simp add: embdoc_line.simps[of p])
    next
      case False
      have "embdoc_line (advance 1 p) =
              advance (length (source (advance 1 p)) - cursor (advance 1 p)) (advance 1 p)"
        using inb False "1.prems" by (intro "1.IH") auto
      with inb False show ?thesis by (simp add: embdoc_line.simps[of p])
    qed
  qed
qed

lemma lex_token_type_embdoc_last_line:
  assumes top: "top_mode p = Some m" "lex_mode m = YP_LEX_EMBDOC"
    and rest: "drop (cursor p) (source p) = line @ [CHR 0x0A]" "CHR 0x0A \<notin> set line"
    and notend: "\<not> strncmp_eq p (cursor p) (''=end'' @ [CHR 0x0A]) 5"
  shows "lex_token_type eh p =
           Some (unterminated_embdoc eh (advance (length line + 1) (start_token p)))"
proof -
  have len: "length (source p) = cursor p + length line + 1"
    using arg_cong[OF rest(1), of length] by simp
  have nonl: "\<forall>i. cursor p \<le> i \<and> i + 1 < length (source p) \<longrightarrow> source p ! i \<noteq> CHR 0x0A"
  proof (intro allI impI)
    fix i assume i: "cursor p \<le> i \<and> i + 1 < length (source p)"
    then have k: "i - cursor p < length line"
      using len by linarith
    from i have "source p ! i = drop (cursor p) (source p) ! (i - cursor p)" by simp
    also have "\<dots> = line ! (i - cursor p)"
      using k by (simp add: rest(1) nth_append)
    finally show "source p ! i \<noteq> CHR 0x0A"
      using rest(2) k by (metis nth_mem)
  qed
  have line: "embdoc_line (start_token p) = advance (length line + 1) (start_token p)"
    using embdoc_line_no_newline[of "start_token p"] nonl len by simp
  have "lex_embdoc eh p =
          Some (unterminated_embdoc eh (advance (length line + 1) (start_token p)))"
    using notend len by (simp add: lex_embdoc_def Let_def line)
  with top show ?thesis
    by (simp add: lex_token_type_def top_mode_def)
qed

text \<open>
  C10. In EmbDoc mode, when what is left of the buffer is one line that is not
  \<^verbatim>\<open>=end\<close> and the newline that ends it is the last byte, the call consumes
  the line and hands over to the \<^verbatim>\<open>unterminated_embdoc\<close> handler instead of
  returning EMBDOC_LINE. With the default handler the token is EOF from the start of the
  line to the end of the buffer, the line counter is unchanged and EmbDoc mode stays on
  top.
\<close>

theorem embdoc_last_line_goes_to_error_handler:
  assumes top: "top_mode p = Some m" "lex_mode m = YP_LEX_EMBDOC"
    and rest: "drop (cursor p) (source p) = line @ [CHR 0x0A]" "CHR 0x0A \<notin> set line"
    and notend: "\<not> strncmp_eq p (cursor p) (''=end'' @ [CHR 0x0A]) 5"
  shows "lex_token_type eh p =
           Some (unterminated_embdoc eh (advance (length line + 1) (start_token p)))
         \<and> (\<exists>p'. yp_lex_token default_error_handler p = Some p'
                \<and> tok_type (current p') = YP_TOKEN_EOF
                \<and> tok_start (current p') = cursor p
                \<and> tok_end (current p') = length (source p)
                \<and> lineno p' = lineno p
                \<and> top_mode p' = Some m)"
proof
  show "lex_token_type eh p =
          Some (unterminated_embdoc eh (advance (length line + 1) (start_token p)))"
    using assms by (rule lex_token_type_embdoc_last_line)
  have len: "length (source p) = cursor p + length line + 1"
    using arg_cong[OF rest(1), of length] by simp
  let ?pp = "p\<lparr>previous := current p\<rparr>"
  have "lex_token_type default_error_handler ?pp =
          Some (unterminated_embdoc default_error_handler
                  (advance (length line + 1) (start_token ?pp)))"
    using assms by (intro lex_token_type_embdoc_last_line[where m = m]) simp_all
  then show "\<exists>p'. yp_lex_token default_error_handler p = Some p'
                \<and> tok_type (current p') = YP_TOKEN_EOF
                \<and> tok_start (current p') = cursor p
                \<and> tok_end (current p') = length (source p)
                \<and> lineno p' = lineno p
                \<and> top_mode p' = Some m"
    using top len
    by (simp add: yp_lex_token_def default_error_handler_def unrecoverable_def cursor_def)
qed

theorem embdoc_last_line_goes_to_error_handler_witness:
  "lex_source 3 (''=begin'' @ [CHR 0x0A] @ ''doc'' @ [CHR 0x0A]) (CHR 0x0A) [] zero_memory =
     Some [(YP_TOKEN_EMBDOC_BEGIN, 0, 7, ''=begin'' @ [CHR 0x0A]),
           (YP_TOKEN_EOF, 7, 11, ''doc'' @ [CHR 0x0A]),
           (YP_TOKEN_EOF, 11, 11, [])]
   \<and> map_option lex_mode (top_mode embdoc_tail) = Some YP_LEX_EMBDOC
   \<and> drop (cursor embdoc_tail) (source embdoc_tail) = ''doc'' @ [CHR 0x0A]
   \<and> CHR 0x0A \<notin> set ''doc''
   \<and> \<not> strncmp_eq embdoc_tail (cursor embdoc_tail) (''=end'' @ [CHR 0x0A]) 5
   \<and> (\<exists>p'. yp_lex_token default_error_handler embdoc_tail = Some p'
          \<and> tok_type (current p') = YP_TOKEN_EOF
          \<and> tok_start (current p') = 7
          \<and> tok_end (current p') = 11
          \<and> lineno p' = 1
          \<and> map_option lex_mode (top_mode p') = Some YP_LEX_EMBDOC)"
proof -
  let ?m = "\<lparr>lex_mode = YP_LEX_EMBDOC, lex_term = NUL, lex_interp = False, lex_prev = Inline 0\<rparr>"
  have m: "top_mode embdoc_tail = Some ?m" "lex_mode ?m = YP_LEX_EMBDOC"
    by code_simp+
  have rest: "drop (cursor embdoc_tail) (source embdoc_tail) = ''doc'' @ [CHR 0x0A]"
    by code_simp
  have nonl: "CHR 0x0A \<notin> set ''doc''" by simp
  have notend: "\<not> strncmp_eq embdoc_tail (cursor embdoc_tail) (''=end'' @ [CHR 0x0A]) 5"
    by code_simp
  have c: "cursor embdoc_tail = 7" "length (source embdoc_tail) = 11" "lineno embdoc_tail = 1"
    by code_simp+
  have s: "lex_source 3 (''=begin'' @ [CHR 0x0A] @ ''doc'' @ [CHR 0x0A]) (CHR 0x0A) [] zero_memory =
     Some [(YP_TOKEN_EMBDOC_BEGIN, 0, 7, ''=begin'' @ [CHR 0x0A]),
           (YP_TOKEN_EOF, 7, 11, ''doc'' @ [CHR 0x0A]),
           (YP_TOKEN_EOF, 11, 11, [])]"
    by code_simp
  from embdoc_last_line_goes_to_error_handler[OF m rest nonl notend, of default_error_handler]
  show ?thesis using m rest notend c s by auto
qed

section \<open>Numeric suffixes\<close>

text \<open>
  C7, as the code has it. After a valid numeric prefix \<^verbatim>\<open>lex_numeric\<close> tries
  \<^verbatim>\<open>r\<close> first and \<^verbatim>\<open>i\<close> second, once each: an \<^verbatim>\<open>r\<close>
  makes the token RATIONAL_NUMBER, an \<^verbatim>\<open>i\<close> (directly after the prefix or after
  the \<^verbatim>\<open>r\<close>) makes it IMAGINARY_NUMBER. The suffixes compose in the order
  \<^verbatim>\<open>ri\<close> only: \<^verbatim>\<open>2ri\<close> is one token, \<^verbatim>\<open>2ir\<close> is
  the token \<^verbatim>\<open>2i\<close> followed by the identifier \<^verbatim>\<open>r\<close>, and a
  repeated suffix is not consumed.
\<close>

theorem lex_numeric_suffixes:
  "lex_numeric p =
     (case lex_numeric_prefix p of (type, p1) \<Rightarrow>
        if type = YP_TOKEN_INVALID then (YP_TOKEN_INVALID, p1)
        else if peek p1 = CHR ''r'' then
          (if peek_at p1 1 = CHR ''i'' then (YP_TOKEN_IMAGINARY_NUMBER, advance 2 p1)
           else (YP_TOKEN_RATIONAL_NUMBER, advance 1 p1))
        else if peek p1 = CHR ''i'' then (YP_TOKEN_IMAGINARY_NUMBER, advance 1 p1)
        else (type, p1))
   \<and> lex_source 2 ''2ri'' pre post mem =
       Some [(YP_TOKEN_IMAGINARY_NUMBER, 0, 3, ''2ri''), (YP_TOKEN_EOF, 3, 4, [NUL])]
   \<and> lex_source 2 ''2ir'' pre post mem =
       Some [(YP_TOKEN_IMAGINARY_NUMBER, 0, 2, ''2i''), (YP_TOKEN_IDENTIFIER, 2, 3, ''r'')]
   \<and> lex_source 2 ''2rr'' pre post mem =
       Some [(YP_TOKEN_RATIONAL_NUMBER, 0, 2, ''2r''), (YP_TOKEN_IDENTIFIER, 2, 3, ''r'')]
   \<and> lex_source 2 ''2ii'' pre post mem =
       Some [(YP_TOKEN_IMAGINARY_NUMBER, 0, 2, ''2i''), (YP_TOKEN_IDENTIFIER, 2, 3, ''i'')]
   \<and> lex_source 2 ''2r'' pre post mem =
       Some [(YP_TOKEN_RATIONAL_NUMBER, 0, 2, ''2r''), (YP_TOKEN_EOF, 2, 3, [NUL])]"
proof (intro conjI)
  show "lex_numeric p =
     (case lex_numeric_prefix p of (type, p1) \<Rightarrow>
        if type = YP_TOKEN_INVALID then (YP_TOKEN_INVALID, p1)
        else if peek p1 = CHR ''r'' then
          (if peek_at p1 1 = CHR ''i'' then (YP_TOKEN_IMAGINARY_NUMBER, advance 2 p1)
           else (YP_TOKEN_RATIONAL_NUMBER, advance 1 p1))
        else if peek p1 = CHR ''i'' then (YP_TOKEN_IMAGINARY_NUMBER, advance 1 p1)
        else (type, p1))"
    by (simp add: lex_numeric_def match_def peek_advance split: prod.splits)
qed code_simp+

text \<open>The claim as stated fails on \<^verbatim>\<open>2ir\<close>: the numeric token ends after
  \<^verbatim>\<open>2i\<close>.\<close>

theorem suffix_order_counterexample:
  "lex_source 2 ''2ir'' (CHR 0x0A) [] zero_memory =
     Some [(YP_TOKEN_IMAGINARY_NUMBER, 0, 2, ''2i''), (YP_TOKEN_IDENTIFIER, 2, 3, ''r'')]"
  by code_simp

section \<open>Keywords after a dot\<close>

lemmas lexer_unfold =
  yp_parser_init_def yp_lex_token_def lex_token_type_def deref_def
  YP_LEX_STACK_SIZE_def mk_lex_mode_def lex_default_def Let_def whitespace_run.simps
  identifier_run.simps lex_identifier_def peek_def peek_at_def byte_at_def cursor_def
  advance_def start_token_def match_def match_either_def match_then_def match_select_def
  keyword_test_def strncmp_eq_def keyword_table_def
  lexeme_def is_non_newline_whitespace_char_def is_identifier_char_def
  is_identifier_start_char_def is_decimal_number_char_def NUL_def upt_conv_Cons

lemma defined_alone:
  assumes "c \<noteq> CHR ''=''" "c \<noteq> CHR '':''"
  shows "token_stream default_error_handler (Suc 0)
           (yp_parser_init (''defined?'' @ c # rest) pre post mem) =
         Some [(YP_TOKEN_KEYWORD_DEFINED, 0, 8, ''defined?'')]"
  using assms by (simp add: lexer_unfold)

lemma defined_after_dot:
  assumes "c \<noteq> CHR ''=''" "c \<noteq> CHR '':''"
  shows "token_stream default_error_handler (Suc (Suc (Suc 0)))
           (yp_parser_init (''foo.defined?'' @ c # rest) pre post mem) =
         Some [(YP_TOKEN_IDENTIFIER, 0, 3, ''foo''), (YP_TOKEN_DOT, 3, 4, ''.''),
               (YP_TOKEN_IDENTIFIER, 4, 12, ''defined?'')]"
  using assms by (simp add: lexer_unfold)

lemma defined_before_equal:
  "token_stream default_error_handler (Suc (Suc 0))
     (yp_parser_init (''defined?='' @ rest) pre post mem) =
   Some [(YP_TOKEN_IDENTIFIER, 0, 7, ''defined''), (YP_TOKEN_QUESTION_MARK, 7, 8, ''?'')]"
  by (simp add: lexer_unfold)

text \<open>
  C6, as the code has it. For every row of the keyword table (every keyword but
  \<^verbatim>\<open>defined?\<close>), the buffer that holds the keyword alone lexes as the keyword
  token, and \<^verbatim>\<open>foo.\<close> followed by the keyword lexes as IDENTIFIER
  \<^verbatim>\<open>foo\<close>, DOT and a token with the keyword as lexeme that is not a keyword
  token: CONSTANT for \<^verbatim>\<open>BEGIN\<close> and \<^verbatim>\<open>END\<close>, whose first
  letter is upper case, IDENTIFIER for the others. \<^verbatim>\<open>defined?\<close> behaves in the
  same way whenever it is followed in the buffer by a byte \<open>c\<close> other than
  \<^verbatim>\<open>=\<close> and \<^verbatim>\<open>:\<close>, whatever comes after that byte: alone it
  is KEYWORD_DEFINED, after the dot IDENTIFIER, with the eight bytes as lexeme. Before
  \<^verbatim>\<open>=\<close> the question mark is not taken into the identifier.
\<close>

theorem keyword_after_dot_is_not_keyword:
  "(\<forall>(k, sz, token) \<in> set keyword_table.
      lex_source 2 k pre post mem =
        Some [(token, 0, length k, k), (YP_TOKEN_EOF, length k, length k + 1, [NUL])]
      \<and> lex_source 4 (''foo.'' @ k) pre post mem =
        Some [(YP_TOKEN_IDENTIFIER, 0, 3, ''foo''), (YP_TOKEN_DOT, 3, 4, ''.''),
              (if k = ''BEGIN'' \<or> k = ''END'' then YP_TOKEN_CONSTANT else YP_TOKEN_IDENTIFIER,
               4, 4 + length k, k),
              (YP_TOKEN_EOF, 4 + length k, 5 + length k, [NUL])])
   \<and> (c \<noteq> CHR ''='' \<and> c \<noteq> CHR '':'' \<longrightarrow>
        lex_source 1 (''defined?'' @ c # rest) pre post mem =
          Some [(YP_TOKEN_KEYWORD_DEFINED, 0, 8, ''defined?'')]
        \<and> lex_source 3 (''foo.defined?'' @ c # rest) pre post mem =
          Some [(YP_TOKEN_IDENTIFIER, 0, 3, ''foo''), (YP_TOKEN_DOT, 3, 4, ''.''),
                (YP_TOKEN_IDENTIFIER, 4, 12, ''defined?'')])
   \<and> lex_source 2 (''defined?='' @ rest) pre post mem =
        Some [(YP_TOKEN_IDENTIFIER, 0, 7, ''defined''), (YP_TOKEN_QUESTION_MARK, 7, 8, ''?'')]"
proof -
  have rows: "\<forall>(k, sz, token) \<in> set keyword_table.
      lex_source 2 k pre post mem =
        Some [(token, 0, length k, k), (YP_TOKEN_EOF, length k, length k + 1, [NUL])]
      \<and> lex_source 4 (''foo.'' @ k) pre post mem =
        Some [(YP_TOKEN_IDENTIFIER, 0, 3, ''foo''), (YP_TOKEN_DOT, 3, 4, ''.''),
              (if k = ''BEGIN'' \<or> k = ''END'' then YP_TOKEN_CONSTANT else YP_TOKEN_IDENTIFIER,
               4, 4 + length k, k),
              (YP_TOKEN_EOF, 4 + length k, 5 + length k, [NUL])]"
    unfolding keyword_table_def
    by (simp only: list.set ball_simps prod.case, code_simp)
  have alone: "lex_source 1 (''defined?'' @ c # rest) pre post mem =
          Some [(YP_TOKEN_KEYWORD_DEFINED, 0, 8, ''defined?'')]"
    if "c \<noteq> CHR ''=''" "c \<noteq> CHR '':''"
    using defined_alone[OF that, of rest pre post mem] by (simp add: lex_source_def)
  have dot: "lex_source 3 (''foo.defined?'' @ c # rest) pre post mem =
          Some [(YP_TOKEN_IDENTIFIER, 0, 3, ''foo''), (YP_TOKEN_DOT, 3, 4, ''.''),
                (YP_TOKEN_IDENTIFIER, 4, 12, ''defined?'')]"
    if "c \<noteq> CHR ''=''" "c \<noteq> CHR '':''"
    using defined_after_dot[OF that, of rest pre post mem]
    by (simp add: lex_source_def numeral_3_eq_3)
  have eq: "lex_source 2 (''defined?='' @ rest) pre post mem =
        Some [(YP_TOKEN_IDENTIFIER, 0, 7, ''defined''), (YP_TOKEN_QUESTION_MARK, 7, 8, ''?'')]"
    using defined_before_equal[of rest pre post mem]
    by (simp add: lex_source_def numeral_2_eq_2)
  from rows alone dot eq show ?thesis by blast
qed

theorem keyword_after_dot_is_not_keyword_witness:
  "(''class'', 5, YP_TOKEN_KEYWORD_CLASS) \<in> set keyword_table
   \<and> lex_source 2 ''class'' (CHR 0x0A) [] zero_memory =
       Some [(YP_TOKEN_KEYWORD_CLASS, 0, 5, ''class''), (YP_TOKEN_EOF, 5, 6, [NUL])]
   \<and> lex_source 4 ''foo.class'' (CHR 0x0A) [] zero_memory =
       Some [(YP_TOKEN_IDENTIFIER, 0, 3, ''foo''), (YP_TOKEN_DOT, 3, 4, ''.''),
             (YP_TOKEN_IDENTIFIER, 4, 9, ''class''), (YP_TOKEN_EOF, 9, 10, [NUL])]
   \<and> CHR ''('' \<noteq> CHR ''='' \<and> CHR ''('' \<noteq> CHR '':''
   \<and> lex_source 1 (''defined?'' @ CHR ''('' # ''x)'') (CHR 0x0A) [] zero_memory =
       Some [(YP_TOKEN_KEYWORD_DEFINED, 0, 8, ''defined?'')]
   \<and> lex_source 3 (''foo.defined?'' @ CHR ''('' # ''x)'') (CHR 0x0A) [] zero_memory =
       Some [(YP_TOKEN_IDENTIFIER, 0, 3, ''foo''), (YP_TOKEN_DOT, 3, 4, ''.''),
             (YP_TOKEN_IDENTIFIER, 4, 12, ''defined?'')]"
proof -
  have mem: "(''class'', 5, YP_TOKEN_KEYWORD_CLASS) \<in> set keyword_table"
    by (simp add: keyword_table_def)
  note t = keyword_after_dot_is_not_keyword[of "CHR 0x0A" "[]" zero_memory "CHR ''(''" "''x)''"]
  from t have "\<forall>(k, sz, token) \<in> set keyword_table.
      lex_source 2 k (CHR 0x0A) [] zero_memory =
        Some [(token, 0, length k, k), (YP_TOKEN_EOF, length k, length k + 1, [NUL])]
      \<and> lex_source 4 (''foo.'' @ k) (CHR 0x0A) [] zero_memory =
        Some [(YP_TOKEN_IDENTIFIER, 0, 3, ''foo''), (YP_TOKEN_DOT, 3, 4, ''.''),
              (if k = ''BEGIN'' \<or> k = ''END'' then YP_TOKEN_CONSTANT else YP_TOKEN_IDENTIFIER,
               4, 4 + length k, k),
              (YP_TOKEN_EOF, 4 + length k, 5 + length k, [NUL])]"
    by (rule conjunct1)
  from bspec[OF this mem] have rows:
    "lex_source 2 ''class'' (CHR 0x0A) [] zero_memory =
       Some [(YP_TOKEN_KEYWORD_CLASS, 0, 5, ''class''), (YP_TOKEN_EOF, 5, 6, [NUL])]
     \<and> lex_source 4 ''foo.class'' (CHR 0x0A) [] zero_memory =
       Some [(YP_TOKEN_IDENTIFIER, 0, 3, ''foo''), (YP_TOKEN_DOT, 3, 4, ''.''),
             (YP_TOKEN_IDENTIFIER, 4, 9, ''class''), (YP_TOKEN_EOF, 9, 10, [NUL])]"
    by simp
  from t have "lex_source 1 (''defined?'' @ CHR ''('' # ''x)'') (CHR 0x0A) [] zero_memory =
       Some [(YP_TOKEN_KEYWORD_DEFINED, 0, 8, ''defined?'')]
     \<and> lex_source 3 (''foo.defined?'' @ CHR ''('' # ''x)'') (CHR 0x0A) [] zero_memory =
       Some [(YP_TOKEN_IDENTIFIER, 0, 3, ''foo''), (YP_TOKEN_DOT, 3, 4, ''.''),
             (YP_TOKEN_IDENTIFIER, 4, 12, ''defined?'')]"
    by simp
  with mem rows show ?thesis by simp
qed

text \<open>The claim as stated fails for \<^verbatim>\<open>BEGIN\<close>, which comes out as a
  constant after the dot, and for \<^verbatim>\<open>defined?\<close> alone in the buffer, whose
  question mark is not taken into the identifier when it is the last byte.\<close>

theorem keyword_after_dot_counterexample:
  "lex_source 3 ''foo.BEGIN'' (CHR 0x0A) [] zero_memory =
     Some [(YP_TOKEN_IDENTIFIER, 0, 3, ''foo''), (YP_TOKEN_DOT, 3, 4, ''.''),
           (YP_TOKEN_CONSTANT, 4, 9, ''BEGIN'')]
   \<and> lex_source 2 ''defined?'' (CHR 0x0A) [] zero_memory =
     Some [(YP_TOKEN_IDENTIFIER, 0, 7, ''defined''), (YP_TOKEN_QUESTION_MARK, 7, 8, ''?'')]"
  by code_simp

section \<open>Token offsets\<close>

text \<open>The first token of a stream that ends past the buffer consumes the sentinel.\<close>

lemma token_stream_first_past:
  "token_stream default_error_handler n p = Some ts \<Longrightarrow> inside p \<Longrightarrow>
   find (\<lambda>x. length (source p) < tk_end x) ts = Some x \<Longrightarrow>
   consumes_sentinel (length (source p)) x"
proof (induction n arbitrary: p ts)
  case 0
  then show ?case by simp
next
  case (Suc n)
  from Suc.prems(1) obtain p1 ts1 where
    c: "yp_lex_token default_error_handler p = Some p1"
    and t1: "token_stream default_error_handler n p1 = Some ts1"
    and ts: "ts = (tok_type (current p1), tok_start (current p1), tok_end (current p1), lexeme p1) # ts1"
    by (auto split: option.splits)
  from yp_lex_token_positions(1)[OF c] have src: "source p1 = source p" .
  show ?case
  proof (cases "length (source p) < tok_end (current p1)")
    case True
    then have x: "x = (tok_type (current p1), tok_start (current p1), tok_end (current p1), lexeme p1)"
      using Suc.prems(3) ts by simp
    from True have "\<not> inside p1" by (simp add: inside_def cursor_def src)
    with yp_lex_token_within[OF Suc.prems(2) c]
    have "sentinel_eof (length (source p1)) (tok_type (current p1)) (tok_start (current p1))
              (tok_end (current p1))
          \<or> delimiter_overrun p1" by simp
    then show ?thesis
      by (simp add: x consumes_sentinel_def delimiter_overrun_def src)
  next
    case False
    then have i1: "inside p1" by (simp add: inside_def cursor_def src)
    from False Suc.prems(3) ts
    have "find (\<lambda>x. length (source p1) < tk_end x) ts1 = Some x" by (simp add: src)
    from Suc.IH[OF t1 i1 this] show ?thesis by (simp add: src)
  qed
qed

lemma tokens_until_eof_bounded:
  assumes fp: "\<And>x. find (\<lambda>x. N < tk_end x) ts = Some x \<Longrightarrow> consumes_sentinel N x"
    and nd: "\<forall>x\<in>set ts. \<not> sentinel_delimiter N (fst x) (tk_start x) (tk_end x)"
    and i: "i < length ts" and ne: "\<forall>j<i. fst (ts ! j) \<noteq> YP_TOKEN_EOF"
  shows "tk_end (ts ! i) \<le> (if fst (ts ! i) = YP_TOKEN_EOF then N + 1 else N)"
proof (cases "N < tk_end (ts ! i)")
  case False
  then show ?thesis by simp
next
  case True
  define k where "k = (LEAST k. N < tk_end (ts ! k))"
  have kP: "N < tk_end (ts ! k)" unfolding k_def using True by (rule LeastI)
  have kle: "k \<le> i" unfolding k_def using True by (rule Least_le)
  have kmin: "\<not> N < tk_end (ts ! j)" if "j < k" for j
    using that unfolding k_def by (rule not_less_Least)
  have "find (\<lambda>x. N < tk_end x) ts = Some (ts ! k)"
    unfolding find_Some_iff using kP kle i kmin by (intro exI[of _ k]) auto
  from fp[OF this] have cs: "consumes_sentinel N (ts ! k)" .
  have "ts ! k \<in> set ts" using kle i by simp
  with nd cs have "sentinel_eof N (fst (ts ! k)) (tk_start (ts ! k)) (tk_end (ts ! k))"
    by (auto simp: consumes_sentinel_def)
  then have e: "fst (ts ! k) = YP_TOKEN_EOF" "tk_end (ts ! k) = N + 1"
    by (simp_all add: sentinel_eof_def)
  with ne kle have "k = i" by (cases "k < i") auto
  with e show ?thesis by simp
qed

text \<open>
  C8, as the code has it. Along the token stream of every buffer of \<open>N\<close> bytes (with
  the default error handler, for as many calls as return):
  \<^item> every token has its start at or before its end, and the starts and the ends are
    non-decreasing from one token to the next;
  \<^item> the first token that ends past \<open>N\<close>, if there is one, is a token that consumes
    the sentinel: the EOF token that Default or EmbExpr mode returns at the end of the
    buffer, from \<open>N\<close> to \<open>N + 1\<close>, or a token for which the sentinel is taken
    as the delimiter of a literal (the opener of a percent literal whose type letter is
    the last byte of the buffer, or the STRING_END or REGEXP_END token of a literal whose
    terminator is NUL);
  \<^item> so, in a stream where the sentinel is not taken as a delimiter, every token up to
    the first EOF ends at or before \<open>N\<close>, and that EOF token ends at or before
    \<open>N + 1\<close>.
\<close>

theorem token_offsets_ordered:
  "token_stream default_error_handler n (yp_parser_init src pre post mem) = Some ts \<longrightarrow>
     list_all (\<lambda>x. tk_start x \<le> tk_end x) ts
     \<and> sorted (map tk_start ts) \<and> sorted (map tk_end ts)
     \<and> (\<forall>x. find (\<lambda>x. length src < tk_end x) ts = Some x \<longrightarrow> consumes_sentinel (length src) x)
     \<and> ((\<forall>x\<in>set ts. \<not> sentinel_delimiter (length src) (fst x) (tk_start x) (tk_end x)) \<longrightarrow>
          (\<forall>i<length ts. (\<forall>j<i. fst (ts ! j) \<noteq> YP_TOKEN_EOF) \<longrightarrow>
             tk_end (ts ! i) \<le> (if fst (ts ! i) = YP_TOKEN_EOF then length src + 1 else length src)))"
proof
  assume s: "token_stream default_error_handler n (yp_parser_init src pre post mem) = Some ts"
  have src: "length (source (yp_parser_init src pre post mem)) = length src"
    by (simp add: yp_parser_init_def)
  have o: "list_all (\<lambda>x. tk_start x \<le> tk_end x) ts
      \<and> sorted (map tk_start ts) \<and> sorted (map tk_end ts)"
    using token_stream_ordered[OF s] by (simp add: yp_parser_init_def list_all_iff)
  have fp: "consumes_sentinel (length src) x"
    if "find (\<lambda>x. length src < tk_end x) ts = Some x" for x
    using token_stream_first_past[OF s inside_init, of x] that by (simp add: src)
  have b: "tk_end (ts ! i) \<le> (if fst (ts ! i) = YP_TOKEN_EOF then length src + 1 else length src)"
    if "\<forall>x\<in>set ts. \<not> sentinel_delimiter (length src) (fst x) (tk_start x) (tk_end x)"
      "i < length ts" "\<forall>j<i. fst (ts ! j) \<noteq> YP_TOKEN_EOF" for i
    using fp that by (rule tokens_until_eof_bounded)
  from o fp b show "list_all (\<lambda>x. tk_start x \<le> tk_end x) ts
     \<and> sorted (map tk_start ts) \<and> sorted (map tk_end ts)
     \<and> (\<forall>x. find (\<lambda>x. length src < tk_end x) ts = Some x \<longrightarrow> consumes_sentinel (length src) x)
     \<and> ((\<forall>x\<in>set ts. \<not> sentinel_delimiter (length src) (fst x) (tk_start x) (tk_end x)) \<longrightarrow>
          (\<forall>i<length ts. (\<forall>j<i. fst (ts ! j) \<noteq> YP_TOKEN_EOF) \<longrightarrow>
             tk_end (ts ! i) \<le> (if fst (ts ! i) = YP_TOKEN_EOF then length src + 1 else length src)))"
    by blast
qed

theorem token_offsets_ordered_witness:
  "token_stream default_error_handler 4 (yp_parser_init ''a.b'' (CHR 0x0A) [] zero_memory) =
     Some [(YP_TOKEN_IDENTIFIER, 0, 1, ''a''), (YP_TOKEN_DOT, 1, 2, ''.''),
           (YP_TOKEN_IDENTIFIER, 2, 3, ''b''), (YP_TOKEN_EOF, 3, 4, [NUL])]
   \<and> list_all (\<lambda>x. tk_start x \<le> tk_end x)
        [(YP_TOKEN_IDENTIFIER, 0, 1, ''a''), (YP_TOKEN_DOT, 1, 2, ''.''),
         (YP_TOKEN_IDENTIFIER, 2, 3, ''b''), (YP_TOKEN_EOF, 3, 4, [NUL])]
   \<and> sorted (map tk_start [(YP_TOKEN_IDENTIFIER, 0, 1, ''a''), (YP_TOKEN_DOT, 1, 2, ''.''),
         (YP_TOKEN_IDENTIFIER, 2, 3, ''b''), (YP_TOKEN_EOF, 3, 4, [NUL])])
   \<and> sorted (map tk_end [(YP_TOKEN_IDENTIFIER, 0, 1, ''a''), (YP_TOKEN_DOT, 1, 2, ''.''),
         (YP_TOKEN_IDENTIFIER, 2, 3, ''b''), (YP_TOKEN_EOF, 3, 4, [NUL])])
   \<and> find (\<lambda>x. length ''a.b'' < tk_end x)
        [(YP_TOKEN_IDENTIFIER, 0, 1, ''a''), (YP_TOKEN_DOT, 1, 2, ''.''),
         (YP_TOKEN_IDENTIFIER, 2, 3, ''b''), (YP_TOKEN_EOF, 3, 4, [NUL])]
       = Some (YP_TOKEN_EOF, 3, 4, [NUL])
   \<and> consumes_sentinel (length ''a.b'') (YP_TOKEN_EOF, 3, 4, [NUL])
   \<and> list_all (\<lambda>x. \<not> sentinel_delimiter (length ''a.b'') (fst x) (tk_start x) (tk_end x))
        [(YP_TOKEN_IDENTIFIER, 0, 1, ''a''), (YP_TOKEN_DOT, 1, 2, ''.''),
         (YP_TOKEN_IDENTIFIER, 2, 3, ''b''), (YP_TOKEN_EOF, 3, 4, [NUL])]
   \<and> list_all (\<lambda>x. tk_end x \<le> (if fst x = YP_TOKEN_EOF then length ''a.b'' + 1 else length ''a.b''))
        [(YP_TOKEN_IDENTIFIER, 0, 1, ''a''), (YP_TOKEN_DOT, 1, 2, ''.''),
         (YP_TOKEN_IDENTIFIER, 2, 3, ''b''), (YP_TOKEN_EOF, 3, 4, [NUL])]"
proof -
  let ?ts = "[(YP_TOKEN_IDENTIFIER, 0, 1, ''a''), (YP_TOKEN_DOT, 1, 2, ''.''),
           (YP_TOKEN_IDENTIFIER, 2::nat, 3::nat, ''b''), (YP_TOKEN_EOF, 3, 4, [NUL])]"
  have s: "token_stream default_error_handler 4 (yp_parser_init ''a.b'' (CHR 0x0A) [] zero_memory)
             = Some ?ts"
    by code_simp
  have f: "find (\<lambda>x. length ''a.b'' < tk_end x) ?ts = Some (YP_TOKEN_EOF, 3, 4, [NUL])"
    by simp
  have nd: "list_all (\<lambda>x. \<not> sentinel_delimiter (length ''a.b'') (fst x) (tk_start x) (tk_end x)) ?ts"
    by (simp add: sentinel_delimiter_def percent_opener_def)
  have b: "list_all (\<lambda>x. tk_end x \<le> (if fst x = YP_TOKEN_EOF then length ''a.b'' + 1 else length ''a.b'')) ?ts"
    by simp
  from token_offsets_ordered[of 4 "''a.b''" "CHR 0x0A" "[]" zero_memory ?ts] s
  have "list_all (\<lambda>x. tk_start x \<le> tk_end x) ?ts
     \<and> sorted (map tk_start ?ts) \<and> sorted (map tk_end ?ts)
     \<and> (\<forall>x. find (\<lambda>x. length ''a.b'' < tk_end x) ?ts = Some x \<longrightarrow> consumes_sentinel (length ''a.b'') x)"
    by blast
  with f have "list_all (\<lambda>x. tk_start x \<le> tk_end x) ?ts
     \<and> sorted (map tk_start ?ts) \<and> sorted (map tk_end ?ts)
     \<and> consumes_sentinel (length ''a.b'') (YP_TOKEN_EOF, 3, 4, [NUL])"
    by blast
  with s f nd b show ?thesis by blast
qed

text \<open>The claim as stated fails for the EOF token at the end of the buffer, which ends
  one byte past it: at offset 1 for the empty buffer, at offset 2 for the one byte
  \<^verbatim>\<open>a\<close>.\<close>

theorem token_end_within_buffer_counterexample:
  "lex_source 1 [] (CHR 0x0A) [] zero_memory = Some [(YP_TOKEN_EOF, 0, 1, [NUL])]
   \<and> \<not> (1 \<le> length ([] :: string))
   \<and> lex_source 2 ''a'' (CHR 0x0A) [] zero_memory =
       Some [(YP_TOKEN_IDENTIFIER, 0, 1, ''a''), (YP_TOKEN_EOF, 1, 2, [NUL])]
   \<and> \<not> (2 \<le> length ''a'')"
  by code_simp

section \<open>The interpolation flag\<close>




section \<open>The end of the stream\<close>

text \<open>
  C1, as the code has it. For every buffer of \<open>N\<close> bytes, within \<open>2 * N + 1\<close> calls
  of the lexer (with the default error handler) a call returns EOF, unless before that the
  mode stack has grown past its inline capacity, Symbol mode is on top with the read
  position at the end of the buffer, or the sentinel was taken as the delimiter of a
  literal. What the calls after an EOF return depends on where it was returned:
  \<^item> the EOF of an unterminated literal (EmbDoc or List mode on top, or String or Regexp
    mode with a terminator other than NUL, and the read position at the end of the
    buffer) leaves the read position and the mode where they were, and every later call
    returns the same EOF from \<open>N\<close> to \<open>N\<close>;
  \<^item> in Default and EmbExpr mode a call that finds NUL, control-D or control-Z consumes
    that byte and returns EOF, so the EOF at the end of the buffer leaves the read
    position past the sentinel, and \<open>j\<close> calls in a row return EOF when the next
    \<open>j\<close> bytes of the mapped memory, from the read position on, are such bytes.
\<close>

theorem stream_reaches_eof:
  "(\<exists>n\<le>2 * length src + 1. \<exists>q.
       lex_n default_error_handler n (yp_parser_init src pre post mem) = Some q
       \<and> (0 < n \<and> tok_type (current q) = YP_TOKEN_EOF \<or> spilled q \<or> symbol_stuck q
            \<or> delimiter_overrun q))
   \<and> (unterminated p \<longrightarrow>
        (\<exists>q. lex_n default_error_handler (Suc k) p = Some q
           \<and> tok_type (current q) = YP_TOKEN_EOF \<and> unterminated q
           \<and> tok_start (current q) = length (source p) \<and> tok_end (current q) = length (source p)))
   \<and> (code_mode p \<and> (\<forall>i<j. end_of_script (byte_at p (cursor p + i)))
        \<and> cursor p + j \<le> mapped_end p \<longrightarrow>
        (\<exists>q. lex_n eh j p = Some q \<and> cursor q = cursor p + j \<and> code_mode q
           \<and> (0 < j \<longrightarrow> tok_type (current q) = YP_TOKEN_EOF
                           \<and> tok_start (current q) + 1 = tok_end (current q))))"
proof -
  have "\<exists>n\<le>2 * length src + 1. \<exists>q.
       lex_n default_error_handler n (yp_parser_init src pre post mem) = Some q
       \<and> (0 < n \<and> tok_type (current q) = YP_TOKEN_EOF \<or> spilled q \<or> symbol_stuck q
            \<or> delimiter_overrun q)"
    using reaches_eof[OF inline_stack_init inside_init, of src pre post mem]
    by (simp add: calls_left_init)
  moreover have "\<exists>q. lex_n default_error_handler (Suc k) p = Some q
           \<and> tok_type (current q) = YP_TOKEN_EOF \<and> unterminated q
           \<and> tok_start (current q) = length (source p) \<and> tok_end (current q) = length (source p)"
    if "unterminated p"
    using that by (rule unterminated_forever)
  moreover have "\<exists>q. lex_n eh j p = Some q \<and> cursor q = cursor p + j \<and> code_mode q
           \<and> (0 < j \<longrightarrow> tok_type (current q) = YP_TOKEN_EOF
                           \<and> tok_start (current q) + 1 = tok_end (current q))"
    if "code_mode p \<and> (\<forall>i<j. end_of_script (byte_at p (cursor p + i)))
        \<and> cursor p + j \<le> mapped_end p"
    using code_mode_eof_run[of p j eh] that by blast
  ultimately show ?thesis by blast
qed

theorem stream_reaches_eof_witness:
  "lex_source 2 ''a'' (CHR 0x0A) [] zero_memory =
     Some [(YP_TOKEN_IDENTIFIER, 0, 1, ''a''), (YP_TOKEN_EOF, 1, 2, [NUL])]
   \<and> (\<exists>n\<le>2 * length ''a'' + 1. \<exists>q.
       lex_n default_error_handler n (yp_parser_init ''a'' (CHR 0x0A) [] zero_memory) = Some q
       \<and> (0 < n \<and> tok_type (current q) = YP_TOKEN_EOF \<or> spilled q \<or> symbol_stuck q
            \<or> delimiter_overrun q))
   \<and> unterminated (after_calls 2 ([CHR 0x22] @ ''abc''))
   \<and> (\<exists>q. lex_n default_error_handler (Suc 2) (after_calls 2 ([CHR 0x22] @ ''abc'')) = Some q
           \<and> tok_type (current q) = YP_TOKEN_EOF \<and> unterminated q
           \<and> tok_start (current q) = 4 \<and> tok_end (current q) = 4)
   \<and> code_mode (after_calls_in 1 ''a'' [NUL, CHR 0x04])
   \<and> cursor (after_calls_in 1 ''a'' [NUL, CHR 0x04]) = 1
   \<and> end_of_script (byte_at (after_calls_in 1 ''a'' [NUL, CHR 0x04]) 1)
   \<and> end_of_script (byte_at (after_calls_in 1 ''a'' [NUL, CHR 0x04]) 2)
   \<and> end_of_script (byte_at (after_calls_in 1 ''a'' [NUL, CHR 0x04]) 3)
   \<and> mapped_end (after_calls_in 1 ''a'' [NUL, CHR 0x04]) = 4
   \<and> (\<exists>q. lex_n default_error_handler 3 (after_calls_in 1 ''a'' [NUL, CHR 0x04]) = Some q
          \<and> cursor q = 4 \<and> code_mode q \<and> tok_type (current q) = YP_TOKEN_EOF
          \<and> tok_start (current q) + 1 = tok_end (current q))"
proof -
  let ?U = "after_calls 2 ([CHR 0x22] @ ''abc'')"
  let ?D = "after_calls_in 1 ''a'' [NUL, CHR 0x04]"
  have s: "lex_source 2 ''a'' (CHR 0x0A) [] zero_memory =
     Some [(YP_TOKEN_IDENTIFIER, 0, 1, ''a''), (YP_TOKEN_EOF, 1, 2, [NUL])]"
    by code_simp
  have u: "unterminated ?U" "length (source ?U) = 4"
    by code_simp+
  have d: "code_mode ?D" "cursor ?D = 1" "mapped_end ?D = 4"
    by code_simp+
  have b: "end_of_script (byte_at ?D 1)" "end_of_script (byte_at ?D 2)"
    "end_of_script (byte_at ?D 3)"
    by code_simp+
  have bs: "\<forall>i<3. end_of_script (byte_at ?D (cursor ?D + i))"
  proof (intro allI impI)
    fix i :: nat assume "i < 3"
    then consider "i = 0" | "i = 1" | "i = 2" by linarith
    then show "end_of_script (byte_at ?D (cursor ?D + i))"
      using b d(2) by cases (simp_all add: numeral_2_eq_2 numeral_3_eq_3)
  qed
  note t = stream_reaches_eof[where src = "''a''" and pre = "CHR 0x0A" and post = "[]"
      and mem = zero_memory and p = ?U and k = 2 and j = 0 and eh = default_error_handler]
  note t' = stream_reaches_eof[where src = "''a''" and pre = "CHR 0x0A" and post = "[]"
      and mem = zero_memory and p = ?D and k = 0 and j = 3 and eh = default_error_handler]
  from t have 1: "\<exists>n\<le>2 * length ''a'' + 1. \<exists>q.
       lex_n default_error_handler n (yp_parser_init ''a'' (CHR 0x0A) [] zero_memory) = Some q
       \<and> (0 < n \<and> tok_type (current q) = YP_TOKEN_EOF \<or> spilled q \<or> symbol_stuck q
            \<or> delimiter_overrun q)"
    by blast
  from t u have 2: "\<exists>q. lex_n default_error_handler (Suc 2) ?U = Some q
           \<and> tok_type (current q) = YP_TOKEN_EOF \<and> unterminated q
           \<and> tok_start (current q) = 4 \<and> tok_end (current q) = 4"
    by simp
  from t' d bs have 3: "\<exists>q. lex_n default_error_handler 3 ?D = Some q
          \<and> cursor q = 4 \<and> code_mode q \<and> tok_type (current q) = YP_TOKEN_EOF
          \<and> tok_start (current q) + 1 = tok_end (current q)"
    by simp
  from s 1 u(1) 2 d b 3 show ?thesis by blast
qed

text \<open>The claim as stated fails where EOF is returned inside the buffer: after the heredoc
  opener \<^verbatim>\<open><<-\<close> the next call returns an identifier. It also fails after the
  EOF at the end of the buffer when the byte that follows the sentinel in memory starts a
  token: with the byte \<^verbatim>\<open>b\<close> there, the call after EOF returns an
  identifier that lies outside the buffer.\<close>

theorem eof_not_absorbing_counterexample:
  "lex_source 3 ''<<-a'' (CHR 0x0A) [] zero_memory =
     Some [(YP_TOKEN_EOF, 0, 3, ''<<-''), (YP_TOKEN_IDENTIFIER, 3, 4, ''a''),
           (YP_TOKEN_EOF, 4, 5, [NUL])]
   \<and> lex_source 3 ''a'' (CHR 0x0A) ''b'' zero_memory =
     Some [(YP_TOKEN_IDENTIFIER, 0, 1, ''a''), (YP_TOKEN_EOF, 1, 2, [NUL]),
           (YP_TOKEN_IDENTIFIER, 2, 3, ''b'')]"
  by code_simp
end
